theory Spec2Isabelle
  imports Complex_Main "HOL-Library.Multiset"
begin

section \<open>The rules engine of the home energy analysis tool\<close>

text \<open>
  A shallow embedding of \<^verbatim>\<open>rules_engine/engine.py\<close>. Python floats are read as
  real numbers: rounding, infinities and NaN are outside the model. Every exception the
  source can raise is a value of \<open>error\<close>, and a function that can raise returns
  \<open>error + 'a\<close> with \<open>Inl\<close> for the exception. An exception discards the state.
\<close>

subsection \<open>Exceptions and the library functions the engine calls\<close>

datatype error = ZeroDivisionError | StatisticsError | ValueError | IndexError

text \<open>Python's \<^verbatim>\<open>a / b\<close> on floats raises when \<open>b\<close> is zero.\<close>

definition py_div :: "real \<Rightarrow> real \<Rightarrow> error + real" where
  "py_div a b = (if b = 0 then Inl ZeroDivisionError else Inr (a / b))"

text \<open>
  \<^verbatim>\<open>statistics.mean\<close> and \<^verbatim>\<open>statistics.pstdev\<close> (the population standard
  deviation); both raise \<^verbatim>\<open>StatisticsError\<close> on an empty sequence.
\<close>

definition mean :: "real list \<Rightarrow> error + real" where
  "mean xs = (if xs = [] then Inl StatisticsError
              else Inr (sum_list xs / real (length xs)))"

definition pstdev :: "real list \<Rightarrow> error + real" where
  "pstdev xs =
     (if xs = [] then Inl StatisticsError
      else let mu = sum_list xs / real (length xs)
           in Inr (sqrt (sum_list (map (\<lambda>x. (x - mu)\<^sup>2) xs) / real (length xs))))"

text \<open>
  \<^verbatim>\<open>numpy.argmax\<close> on a one-dimensional sequence: it raises \<^verbatim>\<open>ValueError\<close> on an
  empty one, and otherwise scans from the left, moving to a later index only for a
  strictly larger value. \<open>argmax_scan xs i mp idx\<close> is that scan over the rest \<open>xs\<close>,
  which starts at index \<open>i\<close>, with the largest value \<open>mp\<close> seen so far and its index.
\<close>

fun argmax_scan :: "real list \<Rightarrow> nat \<Rightarrow> real \<Rightarrow> nat \<Rightarrow> nat" where
  "argmax_scan [] i mp idx = idx"
| "argmax_scan (x # xs) i mp idx =
     (if x > mp then argmax_scan xs (Suc i) x i else argmax_scan xs (Suc i) mp idx)"

definition argmax :: "real list \<Rightarrow> error + nat" where
  "argmax xs = (case xs of [] \<Rightarrow> Inl ValueError | x # rest \<Rightarrow> Inr (argmax_scan rest 1 x 0))"

text \<open>\<^verbatim>\<open>list.pop(i)\<close> for an index that is not negative.\<close>

definition pop :: "'a list \<Rightarrow> nat \<Rightarrow> error + ('a \<times> 'a list)" where
  "pop xs i = (if i < length xs then Inr (xs ! i, take i xs @ drop (Suc i) xs)
               else Inl IndexError)"

subsection \<open>Degree days\<close>

definition hdd :: "real \<Rightarrow> real \<Rightarrow> real" where
  "hdd avg_temp balance_point =
     (let diff = balance_point - avg_temp in if diff < 0 then 0 else diff)"

definition period_hdd :: "real list \<Rightarrow> real \<Rightarrow> real" where
  "period_hdd avg_temps balance_point =
     sum_list (map (\<lambda>temp. hdd temp balance_point) avg_temps)"

definition average_indoor_temp :: "real \<Rightarrow> real \<Rightarrow> real \<Rightarrow> real" where
  "average_indoor_temp tstat_set tstat_setback setback_daily_hrs =
     ((24 - setback_daily_hrs) * tstat_set + setback_daily_hrs * tstat_setback) / 24"

definition average_heat_load :: "real \<Rightarrow> real \<Rightarrow> real \<Rightarrow> real \<Rightarrow> real \<Rightarrow> real" where
  "average_heat_load design_set_point avg_indoor_temp balance_point design_temp ua_coeff =
     (design_set_point - (avg_indoor_temp - balance_point) - design_temp) * ua_coeff"

definition max_heat_load :: "real \<Rightarrow> real \<Rightarrow> real \<Rightarrow> real" where
  "max_heat_load design_set_point design_temp ua_coeff =
     (design_set_point - design_temp) * ua_coeff"

subsection \<open>Fuel types, billing periods and homes\<close>

datatype FuelType = GAS | OIL | PROPANE

fun FuelType_value :: "FuelType \<Rightarrow> real" where
  "FuelType_value GAS = 100000"
| "FuelType_value OIL = 139600"
| "FuelType_value PROPANE = 91333"

text \<open>
  A \<^verbatim>\<open>BillingPeriod\<close> object. Its \<^verbatim>\<open>home\<close> attribute is read only by the
  constructor, so the record does not keep it. \<open>oid\<close> is the identity of the object:
  the engine compares billing periods by identity (\<^verbatim>\<open>bp not in bps_to_remove\<close>, with
  no \<^verbatim>\<open>__eq__\<close> in the class), which the field values alone do not give.
\<close>

record BillingPeriod =
  oid :: nat
  avg_temps :: "real list"
  usage :: real
  days :: nat
  avg_heating_usage :: real
  total_hdd :: real
  partial_ua :: real
  ua :: real

text \<open>
  A \<^verbatim>\<open>Home\<close> object. \<^verbatim>\<open>__init__\<close> assigns the first four attributes;
  \<^verbatim>\<open>initialize_billing_periods\<close> assigns \<open>bills\<close> and \<open>avg_non_heating_usage\<close>, and
  the two \<^verbatim>\<open>calculate\<close> methods assign \<open>uas\<close>, \<open>avg_ua\<close> and \<open>stdev_pct\<close>. The
  record has them all from the start, empty or zero until they are assigned.
\<close>

record Home =
  fuel_type :: FuelType
  heat_sys_efficiency :: real
  balance_point :: real
  thermostat_set_point :: real
  avg_non_heating_usage :: real
  bills :: "BillingPeriod list"
  uas :: "real list"
  avg_ua :: real
  stdev_pct :: real

definition Home_init :: "FuelType \<Rightarrow> real \<Rightarrow> real \<Rightarrow> real \<Rightarrow> Home" where
  "Home_init ft eff initial_balance_point set_point =
     \<lparr> fuel_type = ft, heat_sys_efficiency = eff,
       balance_point = initial_balance_point, thermostat_set_point = set_point,
       avg_non_heating_usage = 0, bills = [], uas = [], avg_ua = 0, stdev_pct = 0 \<rparr>"

text \<open>\<^verbatim>\<open>BillingPeriod.calculate_partial_ua\<close>, on the attributes it reads.\<close>

definition calculate_partial_ua :: "nat \<Rightarrow> real \<Rightarrow> Home \<Rightarrow> real" where
  "calculate_partial_ua ds ahu home =
     real ds * ahu * FuelType_value (fuel_type home) * heat_sys_efficiency home / 24"

text \<open>
  \<^verbatim>\<open>BillingPeriod.__init__\<close>. There are two divisions: the usage by the number of
  days, and the partial UA by the heating degree days of the period.
\<close>

definition BillingPeriod_init :: "nat \<Rightarrow> real list \<Rightarrow> real \<Rightarrow> Home \<Rightarrow> error + BillingPeriod" where
  "BillingPeriod_init new_oid temps use home =
     (let ds = length temps in
      case py_div use (real ds) of
        Inl e \<Rightarrow> Inl e
      | Inr per_day \<Rightarrow>
          let ahu = per_day - avg_non_heating_usage home;
              thdd = period_hdd temps (balance_point home);
              pua = calculate_partial_ua ds ahu home
          in (case py_div pua thdd of
                Inl e \<Rightarrow> Inl e
              | Inr u \<Rightarrow>
                  Inr \<lparr> oid = new_oid, avg_temps = temps, usage = use, days = ds,
                        avg_heating_usage = ahu, total_hdd = thdd, partial_ua = pua,
                        ua = u \<rparr>))"

subsection \<open>The statistics of a list of UA values\<close>

text \<open>
  The mean and the normalised standard deviation of a list of UA values, as the engine
  computes them in four places: \<^verbatim>\<open>avg = sts.mean(uas)\<close> and then
  \<^verbatim>\<open>sts.pstdev(uas) / avg\<close>.
\<close>

definition ua_stats :: "real list \<Rightarrow> error + (real \<times> real)" where
  "ua_stats us =
     (case mean us of
        Inl e \<Rightarrow> Inl e
      | Inr avg \<Rightarrow>
          (case pstdev us of
             Inl e \<Rightarrow> Inl e
           | Inr sd \<Rightarrow>
               (case py_div sd avg of
                  Inl e \<Rightarrow> Inl e
                | Inr pct \<Rightarrow> Inr (avg, pct))))"

subsection \<open>The local search for the balance point\<close>

text \<open>
  \<^verbatim>\<open>[bill.partial_ua / period_hdds_i[n] for n, bill in enumerate(self.bills)]\<close>:
  the divisions from the left, stopping at the first that raises.
\<close>

fun divide_each :: "real list \<Rightarrow> real list \<Rightarrow> error + real list" where
  "divide_each [] hs = Inr []"
| "divide_each (p # ps) [] = Inl IndexError"
| "divide_each (p # ps) (h # hs) =
     (case py_div p h of
        Inl e \<Rightarrow> Inl e
      | Inr u \<Rightarrow> (case divide_each ps hs of Inl e \<Rightarrow> Inl e | Inr us \<Rightarrow> Inr (u # us)))"

text \<open>
  The trial of one balance point \<open>bp_i\<close> in \<^verbatim>\<open>refine_balance_point\<close>: the degree
  days and the UA of every bill at \<open>bp_i\<close>, and their statistics.
\<close>

definition refine_trial :: "Home \<Rightarrow> real \<Rightarrow> error + (real list \<times> real list \<times> real \<times> real)" where
  "refine_trial h bp_i =
     (let period_hdds_i = map (\<lambda>bill. period_hdd (avg_temps bill) bp_i) (bills h) in
      case divide_each (map partial_ua (bills h)) period_hdds_i of
        Inl e \<Rightarrow> Inl e
      | Inr uas_i \<Rightarrow>
          (case ua_stats uas_i of
             Inl e \<Rightarrow> Inl e
           | Inr (avg_ua_i, stdev_pct_i) \<Rightarrow>
               Inr (period_hdds_i, uas_i, avg_ua_i, stdev_pct_i)))"

text \<open>
  \<^verbatim>\<open>for n, bill in enumerate(self.bills): bill.total_hdd = period_hdds_i[n];
  bill.ua = uas_i[n]\<close>
\<close>

definition store_hdd_ua :: "BillingPeriod list \<Rightarrow> real list \<Rightarrow> real list \<Rightarrow> BillingPeriod list" where
  "store_hdd_ua bs period_hdds_i uas_i =
     map (\<lambda>(bill, th, u). bill\<lparr>total_hdd := th, ua := u\<rparr>) (zip bs (zip period_hdds_i uas_i))"

text \<open>
  One pass through the body of the \<^verbatim>\<open>while\<close> loop of \<^verbatim>\<open>refine_balance_point\<close>,
  for a list of directions that is not empty. \<open>None\<close> is the \<^verbatim>\<open>break\<close>; otherwise
  the pass gives the home and the directions for the next test of the loop condition.
  \<^verbatim>\<open>pop(-1)\<close> removes the last direction and \<^verbatim>\<open>pop(0)\<close> the first.
\<close>

definition refine_step :: "real \<Rightarrow> Home \<Rightarrow> int list \<Rightarrow> error + (Home \<times> int list) option" where
  "refine_step balance_point_sensitivity h directions_to_check =
     (let bp_i = balance_point h + real_of_int (hd directions_to_check) * balance_point_sensitivity in
      if bp_i > thermostat_set_point h then Inr None
      else
        case refine_trial h bp_i of
          Inl e \<Rightarrow> Inl e
        | Inr (period_hdds_i, uas_i, avg_ua_i, stdev_pct_i) \<Rightarrow>
            if stdev_pct_i < stdev_pct h then
              Inr (Some (h\<lparr>balance_point := bp_i, avg_ua := avg_ua_i, stdev_pct := stdev_pct_i,
                           bills := store_hdd_ua (bills h) period_hdds_i uas_i\<rparr>,
                         if length directions_to_check = 2 then butlast directions_to_check
                         else directions_to_check))
            else Inr (Some (h, tl directions_to_check)))"

text \<open>
  A bound on the number of accepted steps that can follow with step \<open>s\<close>: upwards the set
  point stops the search, downwards the degree days of the first bill reach zero, and a
  step of zero is accepted at most once.
\<close>

definition steps_left :: "real \<Rightarrow> Home \<Rightarrow> nat" where
  "steps_left s h =
     (if s > 0 then nat \<lfloor>(thermostat_set_point h - balance_point h) / s\<rfloor>
      else if s < 0 then
        (case bills h of
           [] \<Rightarrow> 0
         | b # _ \<Rightarrow> (if avg_temps b = [] then 0
                     else nat \<lceil>(balance_point h - Min (set (avg_temps b))) / (- s)\<rceil>))
      else (case refine_trial h (balance_point h) of
              Inl e \<Rightarrow> 0
            | Inr (hs, us, a, p) \<Rightarrow> if p < stdev_pct h then 1 else 0))"

function refine_loop :: "real \<Rightarrow> Home \<Rightarrow> int list \<Rightarrow> error + Home" where
  "refine_loop sens h dirs =
     (if dirs = [] then Inr h
      else case refine_step sens h dirs of
             Inl e \<Rightarrow> Inl e
           | Inr None \<Rightarrow> Inr h
           | Inr (Some (h', dirs')) \<Rightarrow> refine_loop sens h' dirs')"
  by pat_completeness auto


section \<open>Termination of the local search\<close>

lemma hdd_nonneg: "0 \<le> hdd t bp"
  by (simp add: hdd_def Let_def)

lemma period_hdd_nonneg: "0 \<le> period_hdd ts bp"
  unfolding period_hdd_def by (induction ts) (simp_all add: hdd_nonneg)


lemma divide_each_length: "divide_each ps hs = Inr us \<Longrightarrow> length us = length ps"
  by (induction ps hs arbitrary: us rule: divide_each.induct) (auto split: sum.splits)

lemma divide_each_nonzero:
  "divide_each ps hs = Inr us \<Longrightarrow> length ps = length hs \<Longrightarrow> 0 \<notin> set hs"
  by (induction ps hs arbitrary: us rule: divide_each.induct)
     (auto split: sum.splits if_splits simp: py_div_def)

lemma ua_stats_nonempty: "ua_stats us = Inr r \<Longrightarrow> us \<noteq> []"
  by (auto simp: ua_stats_def mean_def split: sum.splits if_splits)

lemma refine_trial_ok:
  assumes "refine_trial h bp = Inr (hs, us, a, p)"
  shows "bills h \<noteq> []" and "hs = map (\<lambda>bill. period_hdd (avg_temps bill) bp) (bills h)"
    and "length us = length (bills h)" and "0 \<notin> set hs"
proof -
  from assms obtain us' where d: "divide_each (map partial_ua (bills h))
      (map (\<lambda>bill. period_hdd (avg_temps bill) bp) (bills h)) = Inr us'"
    and st: "ua_stats us' = Inr (a, p)" and e: "us = us'"
    and hs: "hs = map (\<lambda>bill. period_hdd (avg_temps bill) bp) (bills h)"
    by (auto simp: refine_trial_def Let_def split: sum.splits prod.splits)
  show "hs = map (\<lambda>bill. period_hdd (avg_temps bill) bp) (bills h)" by (rule hs)
  from divide_each_length[OF d] e show l: "length us = length (bills h)" by simp
  from ua_stats_nonempty[OF st] e l show "bills h \<noteq> []" by auto
  from divide_each_nonzero[OF d] hs show "0 \<notin> set hs" by simp
qed

lemma period_hdd_pos_gt_Min:
  assumes "period_hdd ts bp \<noteq> 0"
  shows "ts \<noteq> [] \<and> Min (set ts) < bp"
proof -
  from assms have ne: "ts \<noteq> []" by (auto simp: period_hdd_def)
  have "\<exists>t\<in>set ts. hdd t bp \<noteq> 0"
  proof (rule ccontr)
    assume "\<not> ?thesis"
    then have "map (\<lambda>temp. hdd temp bp) ts = map (\<lambda>_. 0) ts" by simp
    then have "period_hdd ts bp = 0" unfolding period_hdd_def by (simp only: sum_list_0) 
    with assms show False by simp
  qed
  then obtain t where t: "t \<in> set ts" "hdd t bp \<noteq> 0" by blast
  then have "t < bp" by (auto simp: hdd_def Let_def split: if_splits)
  moreover have "Min (set ts) \<le> t" using t by simp
  ultimately show ?thesis using ne by simp
qed

lemma map_avg_temps_store: 
  "length hs = length bs \<Longrightarrow> length us = length bs \<Longrightarrow> map avg_temps (store_hdd_ua bs hs us) = map avg_temps bs"
  unfolding store_hdd_ua_def
  by (induction bs arbitrary: hs us) (auto simp: length_Suc_conv)

lemma map_partial_ua_store: 
  "length hs = length bs \<Longrightarrow> length us = length bs \<Longrightarrow> map partial_ua (store_hdd_ua bs hs us) = map partial_ua bs"
  unfolding store_hdd_ua_def
  by (induction bs arbitrary: hs us) (auto simp: length_Suc_conv)

lemma length_store: 
  "length hs = length bs \<Longrightarrow> length us = length bs \<Longrightarrow> length (store_hdd_ua bs hs us) = length bs"
  unfolding store_hdd_ua_def by simp

lemma map_ua_store:
  "length hs = length bs \<Longrightarrow> length us = length bs \<Longrightarrow> map ua (store_hdd_ua bs hs us) = us"
  unfolding store_hdd_ua_def
proof (induction bs arbitrary: hs us)
  case Nil
  then show ?case by simp
next
  case (Cons b bs)
  then obtain th hs' u us' where "hs = th # hs'" "us = u # us'"
    by (metis length_Suc_conv)
  with Cons show ?case by simp
qed

lemma refine_trial_cong:
  assumes "map avg_temps (bills h') = map avg_temps (bills h)"
    and "map partial_ua (bills h') = map partial_ua (bills h)"
  shows "refine_trial h' bp = refine_trial h bp"
proof -
  have "map (\<lambda>bill. period_hdd (avg_temps bill) bp) (bills h')
      = map (\<lambda>ts. period_hdd ts bp) (map avg_temps (bills h'))" by (simp add: comp_def)
  also have "\<dots> = map (\<lambda>bill. period_hdd (avg_temps bill) bp) (bills h)"
    by (simp add: assms comp_def)
  finally show ?thesis unfolding refine_trial_def using assms(2) by simp
qed

lemma refine_step_cases:
  assumes "refine_step sens h dirs = Inr (Some (h', dirs'))"
  obtains (commit) hs us a p where
      "balance_point h + real_of_int (hd dirs) * sens \<le> thermostat_set_point h"
      "refine_trial h (balance_point h + real_of_int (hd dirs) * sens) = Inr (hs, us, a, p)"
      "p < stdev_pct h"
      "h' = h\<lparr>balance_point := balance_point h + real_of_int (hd dirs) * sens,
               avg_ua := a, stdev_pct := p, bills := store_hdd_ua (bills h) hs us\<rparr>"
      "dirs' = (if length dirs = 2 then butlast dirs else dirs)"
  | (drop) "h' = h" "dirs' = tl dirs"
proof -
  let ?bp = "balance_point h + real_of_int (hd dirs) * sens"
  from assms have le: "?bp \<le> thermostat_set_point h"
    by (auto simp: refine_step_def Let_def split: if_splits)
  then have st: "refine_step sens h dirs =
     (case refine_trial h ?bp of
          Inl e \<Rightarrow> Inl e
        | Inr (period_hdds_i, uas_i, avg_ua_i, stdev_pct_i) \<Rightarrow>
            if stdev_pct_i < stdev_pct h then
              Inr (Some (h\<lparr>balance_point := ?bp, avg_ua := avg_ua_i, stdev_pct := stdev_pct_i,
                           bills := store_hdd_ua (bills h) period_hdds_i uas_i\<rparr>,
                         if length dirs = 2 then butlast dirs else dirs))
            else Inr (Some (h, tl dirs)))"
    by (simp add: refine_step_def Let_def)
  from assms st obtain hs us a p where tr: "refine_trial h ?bp = Inr (hs, us, a, p)"
    by (cases "refine_trial h ?bp") auto
  show thesis
  proof (cases "p < stdev_pct h")
    case True
    with assms st tr have "h' = h\<lparr>balance_point := ?bp, avg_ua := a, stdev_pct := p,
                           bills := store_hdd_ua (bills h) hs us\<rparr>"
      and "dirs' = (if length dirs = 2 then butlast dirs else dirs)"
      by simp_all
    with le tr True show thesis by (rule commit)
  next
    case False
    with assms st tr have "h' = h" "dirs' = tl dirs" by simp_all
    then show thesis by (rule drop)
  qed
qed

lemma steps_left_commit:
  assumes le: "balance_point h + s \<le> thermostat_set_point h"
    and tr: "refine_trial h (balance_point h + s) = Inr (hs, us, a, p)"
    and lt: "p < stdev_pct h"
    and h': "h' = h\<lparr>balance_point := balance_point h + s,
               avg_ua := a, stdev_pct := p, bills := store_hdd_ua (bills h) hs us\<rparr>"
  shows "steps_left s h' < steps_left s h"
proof -
  note ok = refine_trial_ok[OF tr]
  have lens: "length hs = length (bills h)" "length us = length (bills h)"
    using ok by simp_all
  have temps: "map avg_temps (bills h') = map avg_temps (bills h)"
    using h' lens by (simp add: map_avg_temps_store)
  have puas: "map partial_ua (bills h') = map partial_ua (bills h)"
    using h' lens by (simp add: map_partial_ua_store)
  consider (pos) "s > 0" | (neg) "s < 0" | (zero) "s = 0" by linarith
  then show ?thesis
  proof cases
    case pos
    let ?x = "(thermostat_set_point h - balance_point h) / s"
    have "(thermostat_set_point h' - balance_point h') / s = ?x - 1"
      using pos h' by (simp add: field_simps)
    moreover have "1 \<le> ?x" using pos le by (simp add: field_simps)
    then have "1 \<le> \<lfloor>?x\<rfloor>" by linarith
    ultimately show ?thesis using pos by (simp add: steps_left_def)
  next
    case neg
    from ok(1) obtain b bs where bb: "bills h = b # bs" by (cases "bills h") auto
    then have "period_hdd (avg_temps b) (balance_point h + s) \<in> set hs"
      using ok(2) by simp
    with ok(4) have "period_hdd (avg_temps b) (balance_point h + s) \<noteq> 0" by metis
    from period_hdd_pos_gt_Min[OF this]
    have ne: "avg_temps b \<noteq> []" and m: "Min (set (avg_temps b)) < balance_point h + s"
      by simp_all
    from temps bb obtain b' bs' where bb': "bills h' = b' # bs'" "avg_temps b' = avg_temps b"
      by (cases "bills h'") auto
    let ?m = "Min (set (avg_temps b))"
    define x where "x = (balance_point h' - ?m) / (- s)"
    have "(balance_point h - ?m) / (- s) = x + 1"
      unfolding x_def using neg h' by (simp add: field_simps)
    then have e1: "steps_left s h = nat \<lceil>x + 1\<rceil>"
      using neg bb ne by (simp add: steps_left_def)
    have e2: "steps_left s h' = nat \<lceil>x\<rceil>"
      unfolding x_def using neg bb' ne by (simp add: steps_left_def)
    have "0 < balance_point h' - ?m" using m h' by simp
    then have "0 < x" unfolding x_def using neg by (simp add: field_simps)
    then have "0 < \<lceil>x\<rceil>" by linarith
    moreover have "\<lceil>x + 1\<rceil> = \<lceil>x\<rceil> + 1" by linarith
    ultimately show ?thesis using e1 e2 by simp
  next
    case zero
    have "refine_trial h' (balance_point h') = refine_trial h (balance_point h)"
      using refine_trial_cong[OF temps puas] zero h' by simp
    then have "refine_trial h' (balance_point h') = Inr (hs, us, a, p)"
      using tr zero by simp
    moreover have "stdev_pct h' = p" using h' by simp
    ultimately have "steps_left s h' = 0" using zero by (simp add: steps_left_def)
    moreover have "steps_left s h = 1" using zero tr lt by (simp add: steps_left_def)
    ultimately show ?thesis by simp
  qed
qed

termination refine_loop
proof (relation "measures [\<lambda>(sens, h, dirs). length dirs,
                            \<lambda>(sens, h, dirs). steps_left (real_of_int (hd dirs) * sens) h]")
  show "wf (measures [\<lambda>(sens, h, dirs). length dirs,
                            \<lambda>(sens, h, dirs). steps_left (real_of_int (hd dirs) * sens) h])"
    by simp
next
  fix sens :: real and h :: Home and dirs :: "int list" and x2 x2a x h' dirs'
  assume ne: "dirs \<noteq> []" and st: "refine_step sens h dirs = Inr x2"
    and "x2 = Some x2a" and "(h', dirs') = x2a"
  then have step: "refine_step sens h dirs = Inr (Some (h', dirs'))" by simp
  from step show "((sens, h', dirs'), sens, h, dirs)
       \<in> measures [\<lambda>(sens, h, dirs). length dirs,
                            \<lambda>(sens, h, dirs). steps_left (real_of_int (hd dirs) * sens) h]"
  proof (cases rule: refine_step_cases)
    case (commit hs us a p)
    have "steps_left (real_of_int (hd dirs) * sens) h' < steps_left (real_of_int (hd dirs) * sens) h"
      by (rule steps_left_commit[OF commit(1) commit(2) commit(3) commit(4)])
    moreover have "length dirs = 2 \<Longrightarrow> length dirs' < length dirs"
      using commit(5) by simp
    moreover have "length dirs \<noteq> 2 \<Longrightarrow> dirs' = dirs" using commit(5) by simp
    ultimately show ?thesis by (cases "length dirs = 2") auto
  next
    case drop
    then show ?thesis using ne by simp
  qed
qed


declare refine_loop.simps [simp del]

text \<open>
  \<^verbatim>\<open>Home.refine_balance_point\<close>: the loop \<open>refine_loop\<close> from the two directions
  \<^verbatim>\<open>[1, -1]\<close>.
\<close>

definition refine_balance_point :: "real \<Rightarrow> Home \<Rightarrow> error + Home" where
  "refine_balance_point balance_point_sensitivity h =
     refine_loop balance_point_sensitivity h [1, - 1]"

section \<open>The removal of outliers\<close>

text \<open>
  One pass through the body of the \<^verbatim>\<open>while\<close> loop of
  \<^verbatim>\<open>calculate_balance_point_and_ua\<close>, up to the \<^verbatim>\<open>if\<close>: either the loop
  is left with the outlier appended again (\<open>Break\<close>), or the exclusion is kept and the
  body goes on to \<^verbatim>\<open>refine_balance_point\<close> (\<open>Continue\<close>).
\<close>

datatype 'a flow = Break 'a | Continue 'a

definition exclude_outlier :: "real \<Rightarrow> Home \<Rightarrow> error + Home flow" where
  "exclude_outlier max_stdev_pct_diff h =
     (case argmax (map (\<lambda>bill. \<bar>ua bill - avg_ua h\<bar>) (bills h)) of
        Inl e \<Rightarrow> Inl e
      | Inr biggest_outlier_idx \<Rightarrow>
          (case pop (bills h) biggest_outlier_idx of
             Inl e \<Rightarrow> Inl e
           | Inr (outlier, rest) \<Rightarrow>
               (let uas_i = map ua rest in
                case ua_stats uas_i of
                  Inl e \<Rightarrow> Inl e
                | Inr (avg_ua_i, stdev_pct_i) \<Rightarrow>
                    if stdev_pct h - stdev_pct_i < max_stdev_pct_diff
                    then Inr (Break (h\<lparr>bills := rest @ [outlier]\<rparr>))
                    else Inr (Continue (h\<lparr>bills := rest, uas := uas_i, avg_ua := avg_ua_i,
                                          stdev_pct := stdev_pct_i\<rparr>)))))"

function outlier_loop :: "real \<Rightarrow> real \<Rightarrow> real \<Rightarrow> Home \<Rightarrow> error + Home" where
  "outlier_loop stdev_pct_max max_stdev_pct_diff next_balance_point_sensitivity h =
     (if stdev_pct h > stdev_pct_max then
        (case exclude_outlier max_stdev_pct_diff h of
           Inl e \<Rightarrow> Inl e
         | Inr (Break h') \<Rightarrow> Inr h'
         | Inr (Continue h') \<Rightarrow>
             (case refine_balance_point next_balance_point_sensitivity h' of
                Inl e \<Rightarrow> Inl e
              | Inr h'' \<Rightarrow>
                  outlier_loop stdev_pct_max max_stdev_pct_diff
                    next_balance_point_sensitivity h''))
      else Inr h)"
  by pat_completeness auto

text \<open>
  The loop ends: a pass that does not leave it removes a billing period, and the local
  search keeps the number of billing periods.
\<close>

lemma refine_loop_invariant:
  assumes "refine_loop sens h dirs = Inr hf" and "P h"
    and "\<And>h dirs h' dirs'. P h \<Longrightarrow> dirs \<noteq> [] \<Longrightarrow>
            refine_step sens h dirs = Inr (Some (h', dirs')) \<Longrightarrow> P h'"
  shows "P hf"
  using assms
proof (induction sens h dirs rule: refine_loop.induct)
  case (1 sens h dirs)
  show ?case
  proof (cases "dirs = []")
    case True
    with "1.prems" show ?thesis by (simp add: refine_loop.simps)
  next
    case False
    from "1.prems"(1) False obtain r where r: "refine_step sens h dirs = Inr r"
      by (cases "refine_step sens h dirs") (auto simp: refine_loop.simps[of sens h dirs])
    show ?thesis
    proof (cases r)
      case None
      with r False "1.prems" show ?thesis by (simp add: refine_loop.simps[of sens h dirs])
    next
      case (Some s)
      obtain h' dirs' where s: "s = (h', dirs')" by (cases s)
      from r Some s False "1.prems"(1) have "refine_loop sens h' dirs' = Inr hf"
        by (simp add: refine_loop.simps[of sens h dirs])
      moreover have "P h'"
        by (rule "1.prems"(3)[OF "1.prems"(2) False]) (simp add: r Some s)
      ultimately show ?thesis
        using "1.IH"[OF False r Some s[symmetric]] "1.prems"(3) by blast
    qed
  qed
qed

lemma refine_step_length_bills:
  assumes "refine_step sens h dirs = Inr (Some (h', dirs'))"
  shows "length (bills h') = length (bills h)"
  using assms
proof (cases rule: refine_step_cases)
  case (commit hs us a p)
  from refine_trial_ok[OF commit(2)] commit(4) show ?thesis
    by (simp add: length_store)
next
  case drop
  then show ?thesis by simp
qed

lemma refine_loop_length_bills:
  assumes "refine_loop sens h dirs = Inr hf"
  shows "length (bills hf) = length (bills h)"
  by (rule refine_loop_invariant[OF assms, where P = "\<lambda>x. length (bills x) = length (bills h)"])
     (simp_all add: refine_step_length_bills)

lemma argmax_scan_bound: "idx < i \<Longrightarrow> argmax_scan xs i mp idx < i + length xs"
  by (induction xs i mp idx rule: argmax_scan.induct) auto

lemma argmax_bound: "argmax xs = Inr i \<Longrightarrow> i < length xs"
  using argmax_scan_bound[of 0 1] by (auto simp: argmax_def split: list.splits)

lemma exclude_outlier_Continue:
  assumes "exclude_outlier d h = Inr (Continue h')"
  shows "length (bills h') < length (bills h)"
proof -
  from assms obtain i where i: "argmax (map (\<lambda>bill. \<bar>ua bill - avg_ua h\<bar>) (bills h)) = Inr i"
    by (auto simp: exclude_outlier_def split: sum.splits)
  from argmax_bound[OF i] have lt: "i < length (bills h)" by simp
  with assms i have "bills h' = take i (bills h) @ drop (Suc i) (bills h)"
    by (auto simp: exclude_outlier_def pop_def Let_def split: sum.splits prod.splits if_splits)
  with lt show ?thesis by simp
qed

termination outlier_loop
proof (relation "measure (\<lambda>(m, d, s, h). length (bills h))")
  show "wf (measure (\<lambda>(m, d, s, h). length (bills h)))" by simp
next
  fix stdev_pct_max max_stdev_pct_diff next_balance_point_sensitivity :: real
    and h :: Home and x2 x2a x2b
  assume "exclude_outlier max_stdev_pct_diff h = Inr x2" and "x2 = Continue x2a"
    and "refine_balance_point next_balance_point_sensitivity x2a = Inr x2b"
  then have "length (bills x2a) < length (bills h)"
    and "length (bills x2b) = length (bills x2a)"
    by (simp_all add: exclude_outlier_Continue refine_loop_length_bills refine_balance_point_def)
  then show "((stdev_pct_max, max_stdev_pct_diff, next_balance_point_sensitivity, x2b),
              stdev_pct_max, max_stdev_pct_diff, next_balance_point_sensitivity, h)
             \<in> measure (\<lambda>(m, d, s, h). length (bills h))" by simp
qed

declare outlier_loop.simps [simp del]

section \<open>The methods of a home\<close>

definition calculate_balance_point_and_ua ::
  "real \<Rightarrow> real \<Rightarrow> real \<Rightarrow> real \<Rightarrow> Home \<Rightarrow> error + Home" where
  "calculate_balance_point_and_ua initial_balance_point_sensitivity stdev_pct_max
       max_stdev_pct_diff next_balance_point_sensitivity h =
     (let us = map ua (bills h) in
      case ua_stats us of
        Inl e \<Rightarrow> Inl e
      | Inr (avg, pct) \<Rightarrow>
          (case refine_balance_point initial_balance_point_sensitivity
                  (h\<lparr>uas := us, avg_ua := avg, stdev_pct := pct\<rparr>) of
             Inl e \<Rightarrow> Inl e
           | Inr h' \<Rightarrow>
               outlier_loop stdev_pct_max max_stdev_pct_diff
                 next_balance_point_sensitivity h'))"

text \<open>
  \<^verbatim>\<open>bps_to_remove\<close> is a list of billing period objects; a bill is kept when its
  identity is not among theirs.
\<close>

definition calculate_balance_point_and_ua_customizable ::
  "BillingPeriod list \<Rightarrow> real \<Rightarrow> Home \<Rightarrow> error + Home" where
  "calculate_balance_point_and_ua_customizable bps_to_remove balance_point_sensitivity h =
     (let customized_bills = filter (\<lambda>bp. oid bp \<notin> set (map oid bps_to_remove)) (bills h);
          us = map ua customized_bills in
      case ua_stats us of
        Inl e \<Rightarrow> Inl e
      | Inr (avg, pct) \<Rightarrow>
          refine_balance_point balance_point_sensitivity
            (h\<lparr>uas := us, avg_ua := avg, stdev_pct := pct, bills := customized_bills\<rparr>))"

text \<open>
  The loop of \<^verbatim>\<open>initialize_billing_periods\<close> over \<^verbatim>\<open>range(len(usages))\<close>, from
  index \<open>i\<close>: \<^verbatim>\<open>temps[i]\<close> raises \<^verbatim>\<open>IndexError\<close> when there are fewer
  temperature lists than usages. The object made at index \<open>i\<close> has identity \<open>i\<close>.
\<close>

fun construct_bills :: "nat \<Rightarrow> real list list \<Rightarrow> real list \<Rightarrow> Home \<Rightarrow> error + BillingPeriod list" where
  "construct_bills i temps [] home = Inr []"
| "construct_bills i [] (u # usages) home = Inl IndexError"
| "construct_bills i (t # temps) (u # usages) home =
     (case BillingPeriod_init i t u home of
        Inl e \<Rightarrow> Inl e
      | Inr b \<Rightarrow>
          (case construct_bills (Suc i) temps usages home of
             Inl e \<Rightarrow> Inl e
           | Inr bs \<Rightarrow> Inr (b # bs)))"

definition initialize_billing_periods ::
  "real list list \<Rightarrow> real list \<Rightarrow> real \<Rightarrow> Home \<Rightarrow> error + Home" where
  "initialize_billing_periods temps usages non_heating h =
     (let h0 = h\<lparr>bills := [], avg_non_heating_usage := non_heating\<rparr> in
      case construct_bills 0 temps usages h0 of
        Inl e \<Rightarrow> Inl e
      | Inr bs \<Rightarrow> Inr (h0\<lparr>bills := bs\<rparr>))"


section \<open>The choice of the outlier\<close>

lemma argmax_scan_first_max:
  assumes "length pre = i" and "idx < i" and "pre ! idx = mp"
    and "\<forall>j<i. pre ! j \<le> mp" and "\<forall>j<idx. pre ! j < mp"
  shows "argmax_scan xs i mp idx < length (pre @ xs) \<and>
         (\<forall>j<length (pre @ xs). (pre @ xs) ! j \<le> (pre @ xs) ! argmax_scan xs i mp idx) \<and>
         (\<forall>j<argmax_scan xs i mp idx. (pre @ xs) ! j < (pre @ xs) ! argmax_scan xs i mp idx)"
  using assms
proof (induction xs arbitrary: pre i mp idx)
  case Nil
  then show ?case by simp
next
  case (Cons x xs)
  have app: "(pre @ [x]) @ xs = pre @ x # xs" by simp
  show ?case
  proof (cases "x > mp")
    case True
    have "argmax_scan xs (Suc i) x i < length ((pre @ [x]) @ xs) \<and>
         (\<forall>j<length ((pre @ [x]) @ xs). ((pre @ [x]) @ xs) ! j \<le> ((pre @ [x]) @ xs) ! argmax_scan xs (Suc i) x i) \<and>
         (\<forall>j<argmax_scan xs (Suc i) x i. ((pre @ [x]) @ xs) ! j < ((pre @ [x]) @ xs) ! argmax_scan xs (Suc i) x i)"
    proof (rule Cons.IH)
      show "length (pre @ [x]) = Suc i" using Cons.prems(1) by simp
      show "i < Suc i" by simp
      show "(pre @ [x]) ! i = x" using Cons.prems(1) by (simp add: nth_append)
      show "\<forall>j<Suc i. (pre @ [x]) ! j \<le> x"
        using Cons.prems(1,4) True by (auto simp: nth_append less_Suc_eq)
      show "\<forall>j<i. (pre @ [x]) ! j < x"
        using Cons.prems(1,4) True by (auto simp: nth_append)
    qed
    with True show ?thesis unfolding app by simp
  next
    case False
    have "argmax_scan xs (Suc i) mp idx < length ((pre @ [x]) @ xs) \<and>
         (\<forall>j<length ((pre @ [x]) @ xs). ((pre @ [x]) @ xs) ! j \<le> ((pre @ [x]) @ xs) ! argmax_scan xs (Suc i) mp idx) \<and>
         (\<forall>j<argmax_scan xs (Suc i) mp idx. ((pre @ [x]) @ xs) ! j < ((pre @ [x]) @ xs) ! argmax_scan xs (Suc i) mp idx)"
    proof (rule Cons.IH)
      show "length (pre @ [x]) = Suc i" using Cons.prems(1) by simp
      show "idx < Suc i" using Cons.prems(2) by simp
      show "(pre @ [x]) ! idx = mp" using Cons.prems(1,2,3) by (simp add: nth_append)
      show "\<forall>j<Suc i. (pre @ [x]) ! j \<le> mp"
        using Cons.prems(1,4) False by (auto simp: nth_append less_Suc_eq)
      show "\<forall>j<idx. (pre @ [x]) ! j < mp"
        using Cons.prems(1,2,5) by (auto simp: nth_append)
    qed
    with False show ?thesis unfolding app by simp
  qed
qed

lemma argmax_first_max:
  assumes "argmax xs = Inr i"
  shows "i < length xs" and "\<forall>j<length xs. xs ! j \<le> xs ! i" and "\<forall>j<i. xs ! j < xs ! i"
proof -
  from assms obtain x rest where xs: "xs = x # rest" and i: "i = argmax_scan rest 1 x 0"
    by (auto simp: argmax_def split: list.splits)
  have "argmax_scan rest 1 x 0 < length ([x] @ rest) \<and>
         (\<forall>j<length ([x] @ rest). ([x] @ rest) ! j \<le> ([x] @ rest) ! argmax_scan rest 1 x 0) \<and>
         (\<forall>j<argmax_scan rest 1 x 0. ([x] @ rest) ! j < ([x] @ rest) ! argmax_scan rest 1 x 0)"
    by (rule argmax_scan_first_max) simp_all
  then show "i < length xs" and "\<forall>j<length xs. xs ! j \<le> xs ! i" and "\<forall>j<i. xs ! j < xs ! i"
    unfolding xs i by simp_all
qed

lemma exclude_outlier_cases:
  assumes "exclude_outlier d h = Inr r"
  obtains i a p where
    "argmax (map (\<lambda>bill. \<bar>ua bill - avg_ua h\<bar>) (bills h)) = Inr i"
    "i < length (bills h)"
    "ua_stats (map ua (take i (bills h) @ drop (Suc i) (bills h))) = Inr (a, p)"
    "r = (if stdev_pct h - p < d
          then Break (h\<lparr>bills := (take i (bills h) @ drop (Suc i) (bills h)) @ [bills h ! i]\<rparr>)
          else Continue (h\<lparr>bills := take i (bills h) @ drop (Suc i) (bills h),
                           uas := map ua (take i (bills h) @ drop (Suc i) (bills h)),
                           avg_ua := a, stdev_pct := p\<rparr>))"
proof -
  from assms obtain i where i: "argmax (map (\<lambda>bill. \<bar>ua bill - avg_ua h\<bar>) (bills h)) = Inr i"
    by (auto simp: exclude_outlier_def split: sum.splits)
  from argmax_first_max(1)[OF i] have lt: "i < length (bills h)" by simp
  let ?rest = "take i (bills h) @ drop (Suc i) (bills h)"
  have pop: "pop (bills h) i = Inr (bills h ! i, ?rest)" using lt by (simp add: pop_def)
  from assms i pop obtain a p where st: "ua_stats (map ua ?rest) = Inr (a, p)"
    by (cases "ua_stats (map ua ?rest)") (auto simp: exclude_outlier_def Let_def)
  from assms i pop st have "r = (if stdev_pct h - p < d
          then Break (h\<lparr>bills := ?rest @ [bills h ! i]\<rparr>)
          else Continue (h\<lparr>bills := ?rest, uas := map ua ?rest, avg_ua := a, stdev_pct := p\<rparr>))"
    by (simp add: exclude_outlier_def Let_def split: if_splits)
  with i lt st show thesis by (rule that)
qed

lemma exclude_outlier_eval:
  assumes "argmax (map (\<lambda>bill. \<bar>ua bill - avg_ua h\<bar>) (bills h)) = Inr i"
    and "ua_stats (map ua (take i (bills h) @ drop (Suc i) (bills h))) = Inr (a, p)"
  shows "exclude_outlier d h = Inr (if stdev_pct h - p < d
          then Break (h\<lparr>bills := (take i (bills h) @ drop (Suc i) (bills h)) @ [bills h ! i]\<rparr>)
          else Continue (h\<lparr>bills := take i (bills h) @ drop (Suc i) (bills h),
                           uas := map ua (take i (bills h) @ drop (Suc i) (bills h)),
                           avg_ua := a, stdev_pct := p\<rparr>))"
proof -
  from argmax_first_max(1)[OF assms(1)] have lt: "i < length (bills h)" by simp
  then have pop: "pop (bills h) i = Inr (bills h ! i, take i (bills h) @ drop (Suc i) (bills h))"
    by (simp add: pop_def)
  show ?thesis using assms pop by (simp add: exclude_outlier_def Let_def)
qed

text \<open>
  Claim C5. In every pass of the loop of \<^verbatim>\<open>calculate_balance_point_and_ua\<close> over a
  list of bills that is not empty, \<^verbatim>\<open>np.argmax\<close> returns an index \<open>i\<close> where
  \<open>\<bar>ua - avg_ua\<bar>\<close> is largest among the retained periods, with every period before
  \<open>i\<close> strictly closer to the mean: the first of the maximal ones. \<^verbatim>\<open>pop\<close> takes the
  period at \<open>i\<close> out, and when the pass does not raise, the list it leaves is the old one
  without position \<open>i\<close>, with that period appended when the exclusion is rejected.
\<close>

theorem C5_outlier_selection:
  assumes "bills h \<noteq> []"
  shows "\<exists>i<length (bills h).
           argmax (map (\<lambda>bill. \<bar>ua bill - avg_ua h\<bar>) (bills h)) = Inr i \<and>
           pop (bills h) i = Inr (bills h ! i, take i (bills h) @ drop (Suc i) (bills h)) \<and>
           (\<forall>j<length (bills h). \<bar>ua (bills h ! j) - avg_ua h\<bar> \<le> \<bar>ua (bills h ! i) - avg_ua h\<bar>) \<and>
           (\<forall>j<i. \<bar>ua (bills h ! j) - avg_ua h\<bar> < \<bar>ua (bills h ! i) - avg_ua h\<bar>) \<and>
           (\<forall>r. exclude_outlier d h = Inr r \<longrightarrow>
              (case r of
                 Break h' \<Rightarrow> bills h' = (take i (bills h) @ drop (Suc i) (bills h)) @ [bills h ! i]
               | Continue h' \<Rightarrow> bills h' = take i (bills h) @ drop (Suc i) (bills h)))"
proof -
  let ?devs = "map (\<lambda>bill. \<bar>ua bill - avg_ua h\<bar>) (bills h)"
  from assms have "?devs \<noteq> []" by simp
  then obtain i where i: "argmax ?devs = Inr i"
    by (cases ?devs) (simp_all add: argmax_def)
  from argmax_first_max(1)[OF i] have lt: "i < length (bills h)" by simp
  from argmax_first_max(2)[OF i] lt
  have mx: "\<forall>j<length (bills h). \<bar>ua (bills h ! j) - avg_ua h\<bar> \<le> \<bar>ua (bills h ! i) - avg_ua h\<bar>"
    by simp
  from argmax_first_max(3)[OF i] lt
  have fst: "\<forall>j<i. \<bar>ua (bills h ! j) - avg_ua h\<bar> < \<bar>ua (bills h ! i) - avg_ua h\<bar>"
    by simp
  have pp: "pop (bills h) i = Inr (bills h ! i, take i (bills h) @ drop (Suc i) (bills h))"
    using lt by (simp add: pop_def)
  have "\<forall>r. exclude_outlier d h = Inr r \<longrightarrow>
              (case r of
                 Break h' \<Rightarrow> bills h' = (take i (bills h) @ drop (Suc i) (bills h)) @ [bills h ! i]
               | Continue h' \<Rightarrow> bills h' = take i (bills h) @ drop (Suc i) (bills h))"
  proof (intro allI impI)
    fix r
    assume "exclude_outlier d h = Inr r"
    then show "case r of
                 Break h' \<Rightarrow> bills h' = (take i (bills h) @ drop (Suc i) (bills h)) @ [bills h ! i]
               | Continue h' \<Rightarrow> bills h' = take i (bills h) @ drop (Suc i) (bills h)"
    proof (cases rule: exclude_outlier_cases)
      case (1 i' a p)
      from 1(1) i have "i' = i" by simp
      with 1(4) show ?thesis by simp
    qed
  qed
  with lt i pp mx fst show ?thesis by blast
qed

section \<open>Evaluating the statistics and the passes of the search\<close>

lemma pstdev_single: "pstdev [a] = Inr 0"
  by (simp add: pstdev_def)

lemma pstdev_pair: "pstdev [a, b] = Inr (\<bar>a - b\<bar> / 2)"
proof -
  have "((a - (a + b) / 2)\<^sup>2 + (b - (a + b) / 2)\<^sup>2) / 2 = ((a - b) / 2)\<^sup>2"
    by (simp add: power2_eq_square field_simps)
  then have "sqrt (((a - (a + b) / 2)\<^sup>2 + (b - (a + b) / 2)\<^sup>2) / 2) = \<bar>a - b\<bar> / 2"
    by (simp only: real_sqrt_abs) simp
  then show ?thesis by (simp add: pstdev_def Let_def)
qed

lemma refine_step_break:
  assumes "balance_point h + real_of_int d * s > thermostat_set_point h"
  shows "refine_step s h (d # ds) = Inr None"
  using assms by (simp add: refine_step_def)

lemma refine_step_commit:
  assumes "refine_trial h (balance_point h + real_of_int d * s) = Inr (hs, us, a, p)"
    and "balance_point h + real_of_int d * s \<le> thermostat_set_point h"
    and "p < stdev_pct h"
  shows "refine_step s h (d # ds) =
           Inr (Some (h\<lparr>balance_point := balance_point h + real_of_int d * s, avg_ua := a,
                         stdev_pct := p, bills := store_hdd_ua (bills h) hs us\<rparr>,
                      if length ds = 1 then [d] else d # ds))"
  using assms by (cases ds) (simp_all add: refine_step_def Let_def)

lemma refine_step_drop:
  assumes "refine_trial h (balance_point h + real_of_int d * s) = Inr (hs, us, a, p)"
    and "balance_point h + real_of_int d * s \<le> thermostat_set_point h"
    and "\<not> p < stdev_pct h"
  shows "refine_step s h (d # ds) = Inr (Some (h, ds))"
  using assms by (simp add: refine_step_def Let_def)

lemma refine_loop_Nil: "refine_loop s h [] = Inr h"
  by (simp add: refine_loop.simps)

lemma refine_loop_Cons:
  "refine_loop s h (d # ds) =
     (case refine_step s h (d # ds) of
        Inl e \<Rightarrow> Inl e
      | Inr None \<Rightarrow> Inr h
      | Inr (Some (h', dirs')) \<Rightarrow> refine_loop s h' dirs')"
  by (simp add: refine_loop.simps[of s h "d # ds"])

section \<open>The states a search goes through\<close>

inductive refine_reaches :: "real \<Rightarrow> Home \<times> int list \<Rightarrow> Home \<times> int list \<Rightarrow> bool"
  for sens :: real and s :: "Home \<times> int list" where
  start: "refine_reaches sens s s"
| pass: "refine_reaches sens s (h, dirs) \<Longrightarrow> dirs \<noteq> [] \<Longrightarrow>
         refine_step sens h dirs = Inr (Some s') \<Longrightarrow> refine_reaches sens s s'"

definition bill_in_sync :: "real \<Rightarrow> BillingPeriod \<Rightarrow> bool" where
  "bill_in_sync bp b =
     (total_hdd b = period_hdd (avg_temps b) bp \<and>
      total_hdd b \<noteq> 0 \<and>
      ua b = partial_ua b / total_hdd b)"

definition in_sync :: "Home \<Rightarrow> bool" where
  "in_sync h = (\<forall>b\<in>set (bills h). bill_in_sync (balance_point h) b)"

lemma refine_reaches_trans:
  assumes "refine_reaches sens b c" and "refine_reaches sens a b"
  shows "refine_reaches sens a c"
  using assms by (induction rule: refine_reaches.induct) (auto intro: refine_reaches.intros)

lemma refine_loop_reaches:
  assumes "refine_reaches sens (h, dirs) (h', dirs')"
  shows "refine_loop sens h dirs = refine_loop sens h' dirs'"
  using assms
proof (induction "(h', dirs')" arbitrary: h' dirs' rule: refine_reaches.induct)
  case start
  show ?case by simp
next
  case (pass h1 dirs1)
  from pass.hyps(2) pass.hyps(3,4) show ?case
    by (simp add: refine_loop.simps[of sens h1 dirs1])
qed

lemma refine_loop_final_reached:
  assumes "refine_loop sens h dirs = Inr hf"
  shows "\<exists>dirs'. refine_reaches sens (h, dirs) (hf, dirs')"
  using assms
proof (induction sens h dirs rule: refine_loop.induct)
  case (1 sens h dirs)
  show ?case
  proof (cases "dirs = []")
    case True
    with "1.prems" have "hf = h" by (simp add: refine_loop.simps)
    then show ?thesis using refine_reaches.start by blast
  next
    case False
    from "1.prems" False obtain r where r: "refine_step sens h dirs = Inr r"
      by (cases "refine_step sens h dirs") (auto simp: refine_loop.simps[of sens h dirs])
    show ?thesis
    proof (cases r)
      case None
      with r False "1.prems" have "hf = h" by (simp add: refine_loop.simps[of sens h dirs])
      then show ?thesis using refine_reaches.start by blast
    next
      case (Some s)
      obtain h' dirs' where s: "s = (h', dirs')" by (cases s)
      from r Some s False "1.prems" have "refine_loop sens h' dirs' = Inr hf"
        by (simp add: refine_loop.simps[of sens h dirs])
      from "1.IH"[OF False r Some s[symmetric] this]
      obtain d where d: "refine_reaches sens (h', dirs') (hf, d)" by blast
      have "refine_reaches sens (h, dirs) (h', dirs')"
        using refine_reaches.pass[OF refine_reaches.start False] r Some s by simp
      from refine_reaches_trans[OF d this] show ?thesis by blast
    qed
  qed
qed

lemma refine_reaches_invariant:
  assumes "refine_reaches sens (h, dirs) (h', dirs')" and "P h dirs"
    and "\<And>h dirs h' dirs'. P h dirs \<Longrightarrow> dirs \<noteq> [] \<Longrightarrow>
            refine_step sens h dirs = Inr (Some (h', dirs')) \<Longrightarrow> P h' dirs'"
  shows "P h' dirs'"
  using assms(1)
proof (induction "(h', dirs')" arbitrary: h' dirs' rule: refine_reaches.induct)
  case start
  show ?case by (rule assms(2))
next
  case (pass h1 dirs1)
  from assms(3)[OF pass.hyps(2) pass.hyps(3) pass.hyps(4)] show ?case .
qed

lemma refine_step_stdev_pct:
  assumes "refine_step sens h dirs = Inr (Some (h', dirs'))"
  shows "stdev_pct h' \<le> stdev_pct h" and "h' \<noteq> h \<Longrightarrow> stdev_pct h' < stdev_pct h"
  using assms by (cases rule: refine_step_cases; simp)+

lemma refine_reaches_stdev_pct:
  assumes "refine_reaches sens (h1, d1) (h2, d2)"
  shows "stdev_pct h2 \<le> stdev_pct h1 \<and> (h2 \<noteq> h1 \<longrightarrow> stdev_pct h2 < stdev_pct h1)"
  using assms
proof (induction "(h2, d2)" arbitrary: h2 d2 rule: refine_reaches.induct)
  case start
  show ?case by simp
next
  case (pass h dirs)
  from refine_step_stdev_pct[OF pass.hyps(4)] pass.hyps(2)
  show ?case by (cases "h2 = h") auto
qed

text \<open>
  Claim C3. A call of \<^verbatim>\<open>refine_balance_point\<close> that returns leaves \<open>stdev_pct\<close> no
  larger than it was at entry. A pass of its loop changes the home only by committing a
  trial, and then the new \<open>stdev_pct\<close> is the trial's and strictly smaller than the
  old one. Between any two states the loop goes through, \<open>stdev_pct\<close> does not
  increase, and it decreases strictly when the states differ.
\<close>

theorem C3_monotone_search:
  "(refine_balance_point sens h0 = Inr hf \<longrightarrow> stdev_pct hf \<le> stdev_pct h0) \<and>
   (refine_step sens h dirs = Inr (Some (h', dirs')) \<and> h' \<noteq> h \<longrightarrow>
      stdev_pct h' < stdev_pct h \<and>
      (\<exists>hs us a. refine_trial h (balance_point h') = Inr (hs, us, a, stdev_pct h'))) \<and>
   (refine_reaches sens (h0, [1, - 1]) (h1, d1) \<and> refine_reaches sens (h1, d1) (h2, d2) \<longrightarrow>
      stdev_pct h2 \<le> stdev_pct h1 \<and> (h2 \<noteq> h1 \<longrightarrow> stdev_pct h2 < stdev_pct h1))"
proof (intro conjI impI)
  assume "refine_balance_point sens h0 = Inr hf"
  then obtain d where "refine_reaches sens (h0, [1, - 1]) (hf, d)"
    unfolding refine_balance_point_def using refine_loop_final_reached by blast
  from refine_reaches_stdev_pct[OF this] show "stdev_pct hf \<le> stdev_pct h0" by simp
next
  assume a: "refine_step sens h dirs = Inr (Some (h', dirs')) \<and> h' \<noteq> h"
  then show "stdev_pct h' < stdev_pct h" using refine_step_stdev_pct(2) by blast
  from a have "refine_step sens h dirs = Inr (Some (h', dirs'))" and ne: "h' \<noteq> h" by simp_all
  then show "\<exists>hs us a. refine_trial h (balance_point h') = Inr (hs, us, a, stdev_pct h')"
  proof (cases rule: refine_step_cases)
    case (commit hs us a p)
    then show ?thesis by auto
  next
    case drop
    with ne show ?thesis by simp
  qed
next
  assume "refine_reaches sens (h0, [1, - 1]) (h1, d1) \<and> refine_reaches sens (h1, d1) (h2, d2)"
  then have r: "refine_reaches sens (h1, d1) (h2, d2)" by simp
  from refine_reaches_stdev_pct[OF r] show "stdev_pct h2 \<le> stdev_pct h1" by simp
  assume "h2 \<noteq> h1"
  with refine_reaches_stdev_pct[OF r] show "stdev_pct h2 < stdev_pct h1" by simp
qed

section \<open>The states the outlier loop goes through\<close>

inductive outlier_reaches :: "real \<Rightarrow> real \<Rightarrow> real \<Rightarrow> Home \<Rightarrow> Home \<Rightarrow> bool"
  for stdev_pct_max max_stdev_pct_diff sens :: real and h0 :: Home where
  start: "outlier_reaches stdev_pct_max max_stdev_pct_diff sens h0 h0"
| pass: "outlier_reaches stdev_pct_max max_stdev_pct_diff sens h0 h \<Longrightarrow>
         stdev_pct h > stdev_pct_max \<Longrightarrow>
         exclude_outlier max_stdev_pct_diff h = Inr (Continue h') \<Longrightarrow>
         refine_balance_point sens h' = Inr h'' \<Longrightarrow>
         outlier_reaches stdev_pct_max max_stdev_pct_diff sens h0 h''"

lemma outlier_loop_invariant:
  assumes "outlier_loop m d s h = Inr hf" and "P h"
    and "\<And>h h'. P h \<Longrightarrow> exclude_outlier d h = Inr (Break h') \<Longrightarrow> P h'"
    and "\<And>h h'. P h \<Longrightarrow> exclude_outlier d h = Inr (Continue h') \<Longrightarrow> P h'"
    and "\<And>h h'. P h \<Longrightarrow> refine_balance_point s h = Inr h' \<Longrightarrow> P h'"
  shows "P hf"
  using assms
proof (induction m d s h rule: outlier_loop.induct)
  case (1 m d s h)
  show ?case
  proof (cases "stdev_pct h > m")
    case False
    with "1.prems"(1,2) show ?thesis by (simp add: outlier_loop.simps[of m d s h])
  next
    case True
    from "1.prems"(1) True obtain r where r: "exclude_outlier d h = Inr r"
      by (cases "exclude_outlier d h") (auto simp: outlier_loop.simps[of m d s h])
    show ?thesis
    proof (cases r)
      case (Break h')
      with r True "1.prems"(1) have "hf = h'" by (simp add: outlier_loop.simps[of m d s h])
      moreover have "P h'" by (rule "1.prems"(3)[OF "1.prems"(2)]) (simp add: r Break)
      ultimately show ?thesis by simp
    next
      case (Continue h')
      have c: "exclude_outlier d h = Inr (Continue h')" by (simp add: r Continue)
      from "1.prems"(4)[OF "1.prems"(2) c] have p': "P h'" .
      from "1.prems"(1) True c obtain h'' where rf: "refine_balance_point s h' = Inr h''"
        by (cases "refine_balance_point s h'") (auto simp: outlier_loop.simps[of m d s h])
      from "1.prems"(5)[OF p' rf] have p'': "P h''" .
      from "1.prems"(1) True c rf have "outlier_loop m d s h'' = Inr hf"
        by (simp add: outlier_loop.simps[of m d s h])
      from "1.IH"[OF True r Continue rf this p''] "1.prems"(3,4,5) show ?thesis by blast
    qed
  qed
qed

lemma exclude_outlier_frame:
  assumes "exclude_outlier d h = Inr r"
  shows "case r of
           Break h' \<Rightarrow> h' = h\<lparr>bills := bills h'\<rparr> \<and> mset (bills h') = mset (bills h)
         | Continue h' \<Rightarrow> balance_point h' = balance_point h \<and>
             thermostat_set_point h' = thermostat_set_point h \<and> set (bills h') \<subseteq> set (bills h)"
  using assms
proof (cases rule: exclude_outlier_cases)
  case (1 i a p)
  have "mset ((take i (bills h) @ drop (Suc i) (bills h)) @ [bills h ! i]) = mset (bills h)"
    using 1(2) by (metis append_take_drop_id Cons_nth_drop_Suc mset_append union_mset_add_mset_right
        add_mset_add_single mset.simps(2) union_assoc mset_rev rev.simps(2) rev_rev_ident)
  moreover have "set (take i (bills h) @ drop (Suc i) (bills h)) \<subseteq> set (bills h)"
    by (auto dest: in_set_takeD in_set_dropD)
  ultimately show ?thesis using 1(4) by simp
qed

section \<open>The set point bounds the search\<close>

lemma refine_step_set_point:
  assumes "refine_step sens h dirs = Inr (Some (h', dirs'))"
  shows "thermostat_set_point h' = thermostat_set_point h"
    and "balance_point h' = balance_point h \<or> balance_point h' \<le> thermostat_set_point h"
  using assms by (cases rule: refine_step_cases; simp)+

lemma refine_loop_set_point:
  assumes "refine_loop sens h dirs = Inr h'"
  shows "thermostat_set_point h' = thermostat_set_point h \<and>
         (balance_point h' = balance_point h \<or> balance_point h' \<le> thermostat_set_point h)"
proof (rule refine_loop_invariant[OF assms, where P = "\<lambda>x. thermostat_set_point x = thermostat_set_point h \<and>
         (balance_point x = balance_point h \<or> balance_point x \<le> thermostat_set_point h)"])
  show "thermostat_set_point h = thermostat_set_point h \<and>
         (balance_point h = balance_point h \<or> balance_point h \<le> thermostat_set_point h)" by simp
next
  fix x x' :: Home and dirs dirs' :: "int list"
  assume p: "thermostat_set_point x = thermostat_set_point h \<and>
         (balance_point x = balance_point h \<or> balance_point x \<le> thermostat_set_point h)"
    and "dirs \<noteq> []" and st: "refine_step sens x dirs = Inr (Some (x', dirs'))"
  from refine_step_set_point[OF st] p
  show "thermostat_set_point x' = thermostat_set_point h \<and>
         (balance_point x' = balance_point h \<or> balance_point x' \<le> thermostat_set_point h)"
    by auto
qed

lemma outlier_loop_set_point:
  assumes "outlier_loop m d s h = Inr h'"
  shows "thermostat_set_point h' = thermostat_set_point h \<and>
         (balance_point h' = balance_point h \<or> balance_point h' \<le> thermostat_set_point h)"
proof (rule outlier_loop_invariant[OF assms, where P = "\<lambda>x. thermostat_set_point x = thermostat_set_point h \<and>
         (balance_point x = balance_point h \<or> balance_point x \<le> thermostat_set_point h)"])
  show "thermostat_set_point h = thermostat_set_point h \<and>
         (balance_point h = balance_point h \<or> balance_point h \<le> thermostat_set_point h)" by simp
next
  fix x x' :: Home
  assume p: "thermostat_set_point x = thermostat_set_point h \<and>
         (balance_point x = balance_point h \<or> balance_point x \<le> thermostat_set_point h)"
  {
    assume "exclude_outlier d x = Inr (Break x')"
    from exclude_outlier_frame[OF this] have "x' = x\<lparr>bills := bills x'\<rparr>" by simp
    then have "thermostat_set_point x' = thermostat_set_point x \<and> balance_point x' = balance_point x"
      by (metis Home.select_convs(3,4) Home.surjective Home.update_convs(6))
    with p show "thermostat_set_point x' = thermostat_set_point h \<and>
         (balance_point x' = balance_point h \<or> balance_point x' \<le> thermostat_set_point h)"
      by simp
  }
  {
    assume "exclude_outlier d x = Inr (Continue x')"
    from exclude_outlier_frame[OF this] p
    show "thermostat_set_point x' = thermostat_set_point h \<and>
         (balance_point x' = balance_point h \<or> balance_point x' \<le> thermostat_set_point h)"
      by simp
  }
  {
    assume "refine_balance_point s x = Inr x'"
    from refine_loop_set_point[OF this[unfolded refine_balance_point_def]] p
    show "thermostat_set_point x' = thermostat_set_point h \<and>
         (balance_point x' = balance_point h \<or> balance_point x' \<le> thermostat_set_point h)"
      by auto
  }
qed

text \<open>
  Claim C4, amended. When \<^verbatim>\<open>refine_balance_point\<close>,
  \<^verbatim>\<open>calculate_balance_point_and_ua\<close> or
  \<^verbatim>\<open>calculate_balance_point_and_ua_customizable\<close> returns, the set point is the one at
  entry and the balance point is either the one at entry or at most the set point. So a
  balance point that does not exceed the set point at entry does not exceed it at return.
\<close>

theorem C4_balance_point_bound:
  "(refine_balance_point sens h = Inr h' \<or>
    calculate_balance_point_and_ua sens0 stdev_pct_max max_stdev_pct_diff sens1 h = Inr h' \<or>
    calculate_balance_point_and_ua_customizable bps_to_remove sens h = Inr h') \<longrightarrow>
   thermostat_set_point h' = thermostat_set_point h \<and>
   (balance_point h' = balance_point h \<or> balance_point h' \<le> thermostat_set_point h') \<and>
   (balance_point h \<le> thermostat_set_point h \<longrightarrow> balance_point h' \<le> thermostat_set_point h')"
proof
  assume a: "refine_balance_point sens h = Inr h' \<or>
    calculate_balance_point_and_ua sens0 stdev_pct_max max_stdev_pct_diff sens1 h = Inr h' \<or>
    calculate_balance_point_and_ua_customizable bps_to_remove sens h = Inr h'"
  have "thermostat_set_point h' = thermostat_set_point h \<and>
         (balance_point h' = balance_point h \<or> balance_point h' \<le> thermostat_set_point h)"
    using a
  proof (elim disjE)
    assume "refine_balance_point sens h = Inr h'"
    then show ?thesis using refine_loop_set_point by (simp add: refine_balance_point_def)
  next
    assume c: "calculate_balance_point_and_ua sens0 stdev_pct_max max_stdev_pct_diff sens1 h = Inr h'"
    then obtain avg pct where "ua_stats (map ua (bills h)) = Inr (avg, pct)"
      by (cases "ua_stats (map ua (bills h))")
         (auto simp: calculate_balance_point_and_ua_def Let_def)
    with c obtain h1 where
      r: "refine_loop sens0 (h\<lparr>uas := map ua (bills h), avg_ua := avg, stdev_pct := pct\<rparr>) [1, - 1] = Inr h1"
      and l: "outlier_loop stdev_pct_max max_stdev_pct_diff sens1 h1 = Inr h'"
      by (auto simp: calculate_balance_point_and_ua_def Let_def refine_balance_point_def
          split: sum.splits)
    from refine_loop_set_point[OF r] outlier_loop_set_point[OF l] show ?thesis by auto
  next
    let ?bs = "filter (\<lambda>bp. oid bp \<notin> set (map oid bps_to_remove)) (bills h)"
    assume c: "calculate_balance_point_and_ua_customizable bps_to_remove sens h = Inr h'"
    then obtain avg pct where "ua_stats (map ua ?bs) = Inr (avg, pct)"
      by (cases "ua_stats (map ua ?bs)")
         (auto simp: calculate_balance_point_and_ua_customizable_def Let_def)
    with c have
      "refine_loop sens (h\<lparr>uas := map ua ?bs, avg_ua := avg, stdev_pct := pct, bills := ?bs\<rparr>) [1, - 1] = Inr h'"
      by (simp add: calculate_balance_point_and_ua_customizable_def Let_def refine_balance_point_def)
    from refine_loop_set_point[OF this] show ?thesis by simp
  qed
  then show "thermostat_set_point h' = thermostat_set_point h \<and>
   (balance_point h' = balance_point h \<or> balance_point h' \<le> thermostat_set_point h') \<and>
   (balance_point h \<le> thermostat_set_point h \<longrightarrow> balance_point h' \<le> thermostat_set_point h')"
    by auto
qed

section \<open>The search keeps to the first direction that improves\<close>


section \<open>Billing periods follow the balance point\<close>

lemma store_hdd_ua_Cons:
  "store_hdd_ua (b # bs) (th # hs) (u # us) = b\<lparr>total_hdd := th, ua := u\<rparr> # store_hdd_ua bs hs us"
  by (simp add: store_hdd_ua_def)

lemma store_in_sync:
  assumes "divide_each (map partial_ua bs) (map (\<lambda>bill. period_hdd (avg_temps bill) bp) bs) = Inr us"
  shows "\<forall>b\<in>set (store_hdd_ua bs (map (\<lambda>bill. period_hdd (avg_temps bill) bp) bs) us).
           bill_in_sync bp b"
  using assms
proof (induction bs arbitrary: us)
  case Nil
  then show ?case by (simp add: store_hdd_ua_def)
next
  case (Cons b bs)
  from Cons.prems obtain u us' where nz: "period_hdd (avg_temps b) bp \<noteq> 0"
    and u: "u = partial_ua b / period_hdd (avg_temps b) bp"
    and d: "divide_each (map partial_ua bs) (map (\<lambda>bill. period_hdd (avg_temps bill) bp) bs) = Inr us'"
    and us: "us = u # us'"
    by (auto simp: py_div_def split: if_splits sum.splits)
  have "bill_in_sync bp (b\<lparr>total_hdd := period_hdd (avg_temps b) bp, ua := u\<rparr>)"
    using nz u by (simp add: bill_in_sync_def)
  with Cons.IH[OF d] us show ?case by (simp add: store_hdd_ua_Cons)
qed

lemma refine_step_commit_in_sync:
  assumes "refine_step sens h dirs = Inr (Some (h', dirs'))" and "h' \<noteq> h"
  shows "in_sync h'"
  using assms(1)
proof (cases rule: refine_step_cases)
  case (commit hs us a p)
  let ?bp = "balance_point h + real_of_int (hd dirs) * sens"
  from commit(2) have d: "divide_each (map partial_ua (bills h))
      (map (\<lambda>bill. period_hdd (avg_temps bill) ?bp) (bills h)) = Inr us"
    and hs: "hs = map (\<lambda>bill. period_hdd (avg_temps bill) ?bp) (bills h)"
    by (auto simp: refine_trial_def Let_def split: sum.splits prod.splits)
  have b1: "bills h' = store_hdd_ua (bills h) hs us" and b2: "balance_point h' = ?bp"
    using commit(4) by simp_all
  show ?thesis unfolding in_sync_def b1 b2 hs using store_in_sync[OF d] .
next
  case drop
  with assms(2) show ?thesis by simp
qed

lemma refine_step_in_sync:
  assumes "refine_step sens h dirs = Inr (Some (h', dirs'))" and "in_sync h"
  shows "in_sync h'"
  using refine_step_commit_in_sync[OF assms(1)] assms(2) by (cases "h' = h") simp_all

lemma refine_balance_point_in_sync:
  assumes "refine_balance_point sens h = Inr h'" and "in_sync h"
  shows "in_sync h'"
  by (rule refine_loop_invariant[OF assms(1)[unfolded refine_balance_point_def], where P = in_sync])
     (simp_all add: assms(2) refine_step_in_sync)

lemma exclude_outlier_in_sync:
  assumes "exclude_outlier d h = Inr r" and "in_sync h"
  shows "case r of Break h' \<Rightarrow> in_sync h' | Continue h' \<Rightarrow> in_sync h'"
  using assms(1)
proof (cases rule: exclude_outlier_cases)
  case (1 i a p)
  have "set (take i (bills h) @ drop (Suc i) (bills h)) \<subseteq> set (bills h)"
    by (auto dest: in_set_takeD in_set_dropD)
  moreover have "bills h ! i \<in> set (bills h)" using 1(2) by simp
  ultimately show ?thesis using 1(4) assms(2) by (auto simp: in_sync_def)
qed

lemma outlier_loop_in_sync:
  assumes "outlier_loop m d s h = Inr h'" and "in_sync h"
  shows "in_sync h'"
proof (rule outlier_loop_invariant[OF assms(1), where P = in_sync])
  show "in_sync h" by (rule assms(2))
next
  fix x x' :: Home
  assume p: "in_sync x"
  { assume "exclude_outlier d x = Inr (Break x')"
    from exclude_outlier_in_sync[OF this p] show "in_sync x'" by simp }
  { assume "exclude_outlier d x = Inr (Continue x')"
    from exclude_outlier_in_sync[OF this p] show "in_sync x'" by simp }
  { assume "refine_balance_point s x = Inr x'"
    from refine_balance_point_in_sync[OF this p] show "in_sync x'" . }
qed

lemma calculate_in_sync:
  assumes c: "calculate_balance_point_and_ua s0 m d s1 h = Inr h'" and "in_sync h"
  shows "in_sync h'"
proof -
  from c obtain avg pct where "ua_stats (map ua (bills h)) = Inr (avg, pct)"
    by (cases "ua_stats (map ua (bills h))")
       (auto simp: calculate_balance_point_and_ua_def Let_def)
  with c obtain h1 where
    r: "refine_balance_point s0 (h\<lparr>uas := map ua (bills h), avg_ua := avg, stdev_pct := pct\<rparr>) = Inr h1"
    and l: "outlier_loop m d s1 h1 = Inr h'"
    by (auto simp: calculate_balance_point_and_ua_def Let_def split: sum.splits)
  have "in_sync (h\<lparr>uas := map ua (bills h), avg_ua := avg, stdev_pct := pct\<rparr>)"
    using assms(2) by (simp add: in_sync_def)
  from outlier_loop_in_sync[OF l refine_balance_point_in_sync[OF r this]] show ?thesis .
qed

lemma BillingPeriod_init_in_sync:
  assumes "BillingPeriod_init i t u home = Inr b"
  shows "bill_in_sync (balance_point home) b"
  using assms
  by (auto simp: BillingPeriod_init_def Let_def py_div_def bill_in_sync_def
      split: if_splits sum.splits)

lemma construct_bills_in_sync:
  assumes "construct_bills i temps usages home = Inr bs"
  shows "\<forall>b\<in>set bs. bill_in_sync (balance_point home) b"
  using assms
proof (induction i temps usages home arbitrary: bs rule: construct_bills.induct)
  case (1 i temps home)
  then show ?case by simp
next
  case (2 i u usages home)
  then show ?case by simp
next
  case (3 i t temps u usages home)
  from "3.prems" obtain b bs' where b: "BillingPeriod_init i t u home = Inr b"
    and r: "construct_bills (Suc i) temps usages home = Inr bs'" and bs: "bs = b # bs'"
    by (auto split: sum.splits)
  from "3.IH"[OF b r] BillingPeriod_init_in_sync[OF b] bs show ?case by simp
qed

lemma initialize_billing_periods_in_sync:
  assumes "initialize_billing_periods temps usages nh h = Inr h'"
  shows "in_sync h'"
proof -
  let ?h0 = "h\<lparr>bills := [], avg_non_heating_usage := nh\<rparr>"
  from assms obtain bs where c: "construct_bills 0 temps usages ?h0 = Inr bs"
    and h': "h' = ?h0\<lparr>bills := bs\<rparr>"
    by (auto simp: initialize_billing_periods_def Let_def split: sum.splits)
  from construct_bills_in_sync[OF c] h' show ?thesis by (simp add: in_sync_def)
qed

lemma outlier_reaches_in_sync:
  assumes "outlier_reaches m d s h0 h" and "in_sync h0"
  shows "in_sync h"
  using assms(1)
proof (induction rule: outlier_reaches.induct)
  case start
  show ?case by (rule assms(2))
next
  case (pass h h' h'')
  from exclude_outlier_in_sync[OF pass.hyps(3) pass.IH] have "in_sync h'" by simp
  from refine_balance_point_in_sync[OF pass.hyps(4) this] show ?case .
qed

text \<open>
  What a committed trial does to one billing period: \<open>total_hdd\<close> and \<open>ua\<close> are
  recomputed at the balance point, every other field is as it was.
\<close>

definition resync :: "real \<Rightarrow> BillingPeriod \<Rightarrow> BillingPeriod" where
  "resync bp bill = bill\<lparr>total_hdd := period_hdd (avg_temps bill) bp,
                         ua := partial_ua bill / period_hdd (avg_temps bill) bp\<rparr>"

text \<open>
  The home \<open>x\<close> is in sync, and its billing periods are billing periods of \<open>h\<close>,
  recomputed at the balance point of \<open>x\<close>.
\<close>

definition kept_from :: "Home \<Rightarrow> Home \<Rightarrow> bool" where
  "kept_from h x = (in_sync x \<and> mset (bills x) \<subseteq># mset (map (resync (balance_point x)) (bills h)))"

lemma resync_in_sync: "bill_in_sync bp b \<Longrightarrow> resync bp b = b"
  by (simp add: bill_in_sync_def resync_def)

lemma resync_again: "resync bp' (resync bp b) = resync bp' b"
  by (simp add: resync_def)

lemma map_resync_in_sync:
  assumes "in_sync h"
  shows "map (resync (balance_point h)) (bills h) = bills h"
  using assms by (auto simp: in_sync_def resync_in_sync intro: map_idI)

lemma store_resync:
  assumes "divide_each (map partial_ua bs) (map (\<lambda>bill. period_hdd (avg_temps bill) bp) bs) = Inr us"
  shows "store_hdd_ua bs (map (\<lambda>bill. period_hdd (avg_temps bill) bp) bs) us = map (resync bp) bs"
  using assms
proof (induction bs arbitrary: us)
  case Nil
  then show ?case by (simp add: store_hdd_ua_def)
next
  case (Cons b bs)
  from Cons.prems obtain u us' where
    u: "u = partial_ua b / period_hdd (avg_temps b) bp"
    and d: "divide_each (map partial_ua bs) (map (\<lambda>bill. period_hdd (avg_temps bill) bp) bs) = Inr us'"
    and us: "us = u # us'"
    by (auto simp: py_div_def split: if_splits sum.splits)
  from Cons.IH[OF d] us u show ?case by (simp add: store_hdd_ua_Cons resync_def)
qed

lemma refine_step_commit_resync:
  assumes "refine_step sens h dirs = Inr (Some (h', dirs'))" and "h' \<noteq> h"
  shows "balance_point h' = balance_point h + real_of_int (hd dirs) * sens \<and>
         bills h' = map (resync (balance_point h')) (bills h) \<and>
         ua_stats (map ua (bills h')) = Inr (avg_ua h', stdev_pct h')"
  using assms(1)
proof (cases rule: refine_step_cases)
  case (commit hs us a p)
  let ?bp = "balance_point h + real_of_int (hd dirs) * sens"
  from commit(2) have d: "divide_each (map partial_ua (bills h))
      (map (\<lambda>bill. period_hdd (avg_temps bill) ?bp) (bills h)) = Inr us"
    and hs: "hs = map (\<lambda>bill. period_hdd (avg_temps bill) ?bp) (bills h)"
    and st: "ua_stats us = Inr (a, p)"
    by (auto simp: refine_trial_def Let_def split: sum.splits prod.splits)
  have b1: "bills h' = store_hdd_ua (bills h) hs us" and b2: "balance_point h' = ?bp"
    and b3: "avg_ua h' = a" and b4: "stdev_pct h' = p"
    using commit(4) by simp_all
  have "map ua (store_hdd_ua (bills h) hs us) = us"
    by (rule map_ua_store) (use refine_trial_ok[OF commit(2)] in simp_all)
  with st have "ua_stats (map ua (bills h')) = Inr (avg_ua h', stdev_pct h')"
    by (simp add: b1 b3 b4)
  moreover have "bills h' = map (resync (balance_point h')) (bills h)"
    unfolding b1 b2 hs by (rule store_resync[OF d])
  ultimately show ?thesis using b2 by simp
next
  case drop
  with assms(2) show ?thesis by simp
qed

lemma refine_step_resync:
  assumes "refine_step sens x dirs = Inr (Some (x', dirs'))"
    and "in_sync x" and "bills x = map (resync (balance_point x)) bs"
  shows "bills x' = map (resync (balance_point x')) bs"
proof (cases "x' = x")
  case True
  with assms(3) show ?thesis by simp
next
  case False
  from refine_step_commit_resync[OF assms(1) False]
  have "bills x' = map (resync (balance_point x')) (bills x)" by simp
  also have "\<dots> = map (resync (balance_point x')) bs"
    by (simp add: assms(3) resync_again comp_def)
  finally show ?thesis .
qed

lemma refine_reaches_resync:
  assumes "refine_reaches sens (h, dirs) (h', dirs')" and "in_sync h"
  shows "in_sync h' \<and> bills h' = map (resync (balance_point h')) (bills h)"
proof (rule refine_reaches_invariant[OF assms(1),
      where P = "\<lambda>x ds. in_sync x \<and> bills x = map (resync (balance_point x)) (bills h)"])
  show "in_sync h \<and> bills h = map (resync (balance_point h)) (bills h)"
    using assms(2) map_resync_in_sync by simp
next
  fix x x' :: Home and ds ds' :: "int list"
  assume p: "in_sync x \<and> bills x = map (resync (balance_point x)) (bills h)"
    and st: "refine_step sens x ds = Inr (Some (x', ds'))"
  from p refine_step_in_sync[OF st] refine_step_resync[OF st]
  show "in_sync x' \<and> bills x' = map (resync (balance_point x')) (bills h)" by simp
qed

lemma refine_balance_point_resync:
  assumes "refine_balance_point sens h = Inr h'" and "in_sync h"
  shows "bills h' = map (resync (balance_point h')) (bills h)"
proof -
  have "in_sync h' \<and> bills h' = map (resync (balance_point h')) (bills h)"
  proof (rule refine_loop_invariant[OF assms(1)[unfolded refine_balance_point_def],
        where P = "\<lambda>x. in_sync x \<and> bills x = map (resync (balance_point x)) (bills h)"])
    show "in_sync h \<and> bills h = map (resync (balance_point h)) (bills h)"
      using assms(2) map_resync_in_sync by simp
  next
    fix x x' :: Home and ds ds' :: "int list"
    assume p: "in_sync x \<and> bills x = map (resync (balance_point x)) (bills h)"
      and st: "refine_step sens x ds = Inr (Some (x', ds'))"
    from p refine_step_in_sync[OF st] refine_step_resync[OF st]
    show "in_sync x' \<and> bills x' = map (resync (balance_point x')) (bills h)" by simp
  qed
  then show ?thesis by simp
qed

lemma mset_pop_append:
  assumes "i < length xs"
  shows "mset ((take i xs @ drop (Suc i) xs) @ [xs ! i]) = mset xs"
proof -
  have "mset xs = mset (take i xs @ xs ! i # drop (Suc i) xs)"
    using id_take_nth_drop[OF assms] by simp
  then show ?thesis by simp
qed

lemma mset_pop_subset: "mset (take i xs @ drop (Suc i) xs) \<subseteq># mset xs"
proof (cases "i < length xs")
  case True
  have "mset xs = mset (take i xs @ xs ! i # drop (Suc i) xs)"
    using id_take_nth_drop[OF True] by simp
  then have "mset xs = mset (take i xs @ drop (Suc i) xs) + {#xs ! i#}" by simp
  then show ?thesis by simp
next
  case False
  then show ?thesis by simp
qed

lemma exclude_outlier_retains:
  assumes "exclude_outlier d h = Inr r"
  shows "case r of Break h' \<Rightarrow> balance_point h' = balance_point h \<and> mset (bills h') \<subseteq># mset (bills h)
         | Continue h' \<Rightarrow> balance_point h' = balance_point h \<and> mset (bills h') \<subseteq># mset (bills h)"
  using assms
proof (cases rule: exclude_outlier_cases)
  case (1 i a p)
  from mset_pop_append[OF 1(2)] mset_pop_subset[of i "bills h"] 1(4) show ?thesis by simp
qed

lemma kept_from_exclude:
  assumes "exclude_outlier d x = Inr r" and "kept_from h x"
  shows "case r of Break x' \<Rightarrow> kept_from h x' | Continue x' \<Rightarrow> kept_from h x'"
proof -
  from exclude_outlier_in_sync[OF assms(1)] assms(2) exclude_outlier_retains[OF assms(1)]
  show ?thesis
    by (cases r) (auto simp: kept_from_def intro: subset_mset.order_trans)
qed

lemma kept_from_refine:
  assumes "refine_balance_point s x = Inr x'" and "kept_from h x"
  shows "kept_from h x'"
proof -
  from assms(2) have s: "in_sync x"
    and m: "mset (bills x) \<subseteq># mset (map (resync (balance_point x)) (bills h))"
    by (simp_all add: kept_from_def)
  have "mset (bills x') = image_mset (resync (balance_point x')) (mset (bills x))"
    using refine_balance_point_resync[OF assms(1) s] by simp
  also have "\<dots> \<subseteq># image_mset (resync (balance_point x')) (mset (map (resync (balance_point x)) (bills h)))"
    by (rule image_mset_subseteq_mono[OF m])
  also have "\<dots> = mset (map (resync (balance_point x')) (bills h))"
    by (simp add: resync_again comp_def multiset.map_comp)
  finally show ?thesis using refine_balance_point_in_sync[OF assms(1) s] by (simp add: kept_from_def)
qed

lemma kept_from_start: "in_sync h \<Longrightarrow> kept_from h h"
  by (simp add: kept_from_def map_resync_in_sync)

lemma outlier_reaches_kept:
  assumes "outlier_reaches m d s h0 h" and "in_sync h0"
  shows "kept_from h0 h"
  using assms(1)
proof (induction rule: outlier_reaches.induct)
  case start
  show ?case by (rule kept_from_start[OF assms(2)])
next
  case (pass h h' h'')
  from kept_from_exclude[OF pass.hyps(3) pass.IH] have "kept_from h0 h'" by simp
  from kept_from_refine[OF pass.hyps(4) this] show ?case .
qed

lemma outlier_loop_kept:
  assumes "outlier_loop m d s x = Inr x'" and "kept_from h x"
  shows "kept_from h x'"
proof (rule outlier_loop_invariant[OF assms(1), where P = "kept_from h"])
  show "kept_from h x" by (rule assms(2))
next
  fix y y' :: Home
  assume p: "kept_from h y"
  { assume "exclude_outlier d y = Inr (Break y')"
    from kept_from_exclude[OF this p] show "kept_from h y'" by simp }
  { assume "exclude_outlier d y = Inr (Continue y')"
    from kept_from_exclude[OF this p] show "kept_from h y'" by simp }
  { assume "refine_balance_point s y = Inr y'"
    from kept_from_refine[OF this p] show "kept_from h y'" . }
qed

lemma calculate_kept:
  assumes c: "calculate_balance_point_and_ua s0 m d s1 h = Inr h'" and "in_sync h"
  shows "kept_from h h'"
proof -
  from c obtain avg pct where "ua_stats (map ua (bills h)) = Inr (avg, pct)"
    by (cases "ua_stats (map ua (bills h))")
       (auto simp: calculate_balance_point_and_ua_def Let_def)
  with c obtain h1 where
    r: "refine_balance_point s0 (h\<lparr>uas := map ua (bills h), avg_ua := avg, stdev_pct := pct\<rparr>) = Inr h1"
    and l: "outlier_loop m d s1 h1 = Inr h'"
    by (auto simp: calculate_balance_point_and_ua_def Let_def split: sum.splits)
  have "kept_from h (h\<lparr>uas := map ua (bills h), avg_ua := avg, stdev_pct := pct\<rparr>)"
    using kept_from_start[OF assms(2)] by (simp add: kept_from_def in_sync_def)
  from outlier_loop_kept[OF l kept_from_refine[OF r this]] show ?thesis .
qed

text \<open>
  Claim C1. A home is in sync when every retained billing period has
  \<open>total_hdd = period_hdd avg_temps balance_point\<close>, not zero, and
  \<open>ua = partial_ua / total_hdd\<close>. \<^verbatim>\<open>initialize_billing_periods\<close> returns a home in
  sync. A pass of the local search that commits a new balance point writes, in that same
  pass, the degree days and the UA at the new balance point into every billing period:
  the list of bills is the old one, in its order, with \<open>total_hdd\<close> and \<open>ua\<close>
  recomputed and nothing else changed; the home is then in sync, whatever it was before,
  and \<open>avg_ua\<close> and \<open>stdev_pct\<close> are the statistics of the \<open>ua\<close> values now stored.
  From a home in sync, every state the local search goes through is in sync and has the
  bills of the first state, recomputed at its balance point; a pass of the outlier loop
  keeps the home in sync and the balance point, whether it rejects or keeps the
  exclusion, and its bills are bills it had; every state at which the outlier loop tests
  its condition, and the home \<^verbatim>\<open>calculate_balance_point_and_ua\<close> returns, are in sync
  with bills that are bills of the first state recomputed at the current balance point.
\<close>

theorem C1_synchronization:
  "(initialize_billing_periods temps usages nh h = Inr h' \<longrightarrow> in_sync h') \<and>
   (refine_step sens h dirs = Inr (Some (h', dirs')) \<and> h' \<noteq> h \<longrightarrow>
      in_sync h' \<and>
      balance_point h' = balance_point h + real_of_int (hd dirs) * sens \<and>
      bills h' = map (resync (balance_point h')) (bills h) \<and>
      ua_stats (map ua (bills h')) = Inr (avg_ua h', stdev_pct h')) \<and>
   (in_sync h \<and> refine_reaches sens (h, dirs) (h', dirs') \<longrightarrow>
      in_sync h' \<and> bills h' = map (resync (balance_point h')) (bills h)) \<and>
   (in_sync h \<and> (exclude_outlier d h = Inr (Break h') \<or> exclude_outlier d h = Inr (Continue h'))
      \<longrightarrow> in_sync h' \<and> balance_point h' = balance_point h \<and> mset (bills h') \<subseteq># mset (bills h)) \<and>
   (in_sync h \<and> outlier_reaches m d sens h h' \<longrightarrow>
      in_sync h' \<and> mset (bills h') \<subseteq># mset (map (resync (balance_point h')) (bills h))) \<and>
   (in_sync h \<and> calculate_balance_point_and_ua sens0 m d sens h = Inr h' \<longrightarrow>
      in_sync h' \<and> mset (bills h') \<subseteq># mset (map (resync (balance_point h')) (bills h)))"
proof (intro conjI impI)
  assume "initialize_billing_periods temps usages nh h = Inr h'"
  then show "in_sync h'" by (rule initialize_billing_periods_in_sync)
next
  assume a: "refine_step sens h dirs = Inr (Some (h', dirs')) \<and> h' \<noteq> h"
  then show "in_sync h'" using refine_step_commit_in_sync by blast
  from a refine_step_commit_resync[of sens h dirs h' dirs']
  show "balance_point h' = balance_point h + real_of_int (hd dirs) * sens"
    and "bills h' = map (resync (balance_point h')) (bills h)"
    and "ua_stats (map ua (bills h')) = Inr (avg_ua h', stdev_pct h')"
    by blast+
next
  assume a: "in_sync h \<and> refine_reaches sens (h, dirs) (h', dirs')"
  with refine_reaches_resync[of sens h dirs h' dirs']
  show "in_sync h'" and "bills h' = map (resync (balance_point h')) (bills h)" by simp_all
next
  assume a: "in_sync h \<and> (exclude_outlier d h = Inr (Break h') \<or> exclude_outlier d h = Inr (Continue h'))"
  then show "in_sync h'" using exclude_outlier_in_sync[of d h] by force
  from a exclude_outlier_retains[of d h]
  show "balance_point h' = balance_point h" and "mset (bills h') \<subseteq># mset (bills h)" by force+
next
  assume "in_sync h \<and> outlier_reaches m d sens h h'"
  with outlier_reaches_kept[of m d sens h h']
  show "in_sync h'" and "mset (bills h') \<subseteq># mset (map (resync (balance_point h')) (bills h))"
    by (simp_all add: kept_from_def)
next
  assume "in_sync h \<and> calculate_balance_point_and_ua sens0 m d sens h = Inr h'"
  with calculate_kept[of sens0 m d sens h h']
  show "in_sync h'" and "mset (bills h') \<subseteq># mset (map (resync (balance_point h')) (bills h))"
    by (simp_all add: kept_from_def)
qed

section \<open>Rejected and kept exclusions\<close>

lemma outlier_loop_Break:
  assumes "stdev_pct h > m" and "exclude_outlier d h = Inr (Break h')"
  shows "outlier_loop m d s h = Inr h'"
  using assms by (simp add: outlier_loop.simps[of m d s h])

lemma outlier_loop_Continue:
  assumes "stdev_pct h > m" and "exclude_outlier d h = Inr (Continue h')"
    and "refine_balance_point s h' = Inr h''"
  shows "outlier_loop m d s h = outlier_loop m d s h''"
  using assms by (simp add: outlier_loop.simps[of m d s h])

lemma outlier_loop_done:
  assumes "\<not> stdev_pct h > m"
  shows "outlier_loop m d s h = Inr h"
  using assms by (simp add: outlier_loop.simps[of m d s h])

text \<open>
  Claim C6. In the loop of \<^verbatim>\<open>calculate_balance_point_and_ua\<close>, with \<open>stdev_pct\<close>
  above the maximum: when the statistics without the biggest outlier improve
  \<open>stdev_pct\<close> by less than \<open>max_stdev_pct_diff\<close>, the loop returns at once, for any
  sensitivity of the next search, the home it had, with the outlier moved to the end of
  the list of bills. The retained periods are the same multiset, and the balance point,
  \<open>avg_ua\<close>, \<open>stdev_pct\<close> and \<open>uas\<close> are unchanged.
\<close>

theorem C6_rejected_exclusion:
  assumes "stdev_pct h > stdev_pct_max"
    and "argmax (map (\<lambda>bill. \<bar>ua bill - avg_ua h\<bar>) (bills h)) = Inr i"
    and "ua_stats (map ua (take i (bills h) @ drop (Suc i) (bills h))) = Inr (a, p)"
    and "stdev_pct h - p < max_stdev_pct_diff"
  shows "\<exists>h'. outlier_loop stdev_pct_max max_stdev_pct_diff sens h = Inr h' \<and>
              h' = h\<lparr>bills := (take i (bills h) @ drop (Suc i) (bills h)) @ [bills h ! i]\<rparr> \<and>
              mset (bills h') = mset (bills h) \<and>
              balance_point h' = balance_point h \<and> avg_ua h' = avg_ua h \<and>
              stdev_pct h' = stdev_pct h \<and> uas h' = uas h"
proof -
  let ?h' = "h\<lparr>bills := (take i (bills h) @ drop (Suc i) (bills h)) @ [bills h ! i]\<rparr>"
  have "exclude_outlier max_stdev_pct_diff h = Inr (Break ?h')"
    using exclude_outlier_eval[OF assms(2,3), of max_stdev_pct_diff] assms(4) by simp
  from outlier_loop_Break[OF assms(1) this]
  have "outlier_loop stdev_pct_max max_stdev_pct_diff sens h = Inr ?h'" .
  moreover have "i < length (bills h)" using argmax_first_max(1)[OF assms(2)] by simp
  then have "mset (bills ?h') = mset (bills h)" using mset_pop_append by simp
  ultimately show ?thesis by simp
qed

lemma pop_append_same_iff:
  assumes "i < length xs" and "distinct (map f xs)"
  shows "(take i xs @ drop (Suc i) xs) @ [xs ! i] = xs \<longleftrightarrow> Suc i = length xs"
proof
  assume "Suc i = length xs"
  then show "(take i xs @ drop (Suc i) xs) @ [xs ! i] = xs"
    using take_Suc_conv_app_nth[OF assms(1)] by simp
next
  assume eq: "(take i xs @ drop (Suc i) xs) @ [xs ! i] = xs"
  show "Suc i = length xs"
  proof (rule ccontr)
    assume "Suc i \<noteq> length xs"
    with assms(1) have lt: "Suc i < length xs" by simp
    have "((take i xs @ drop (Suc i) xs) @ [xs ! i]) ! i = xs ! Suc i"
      using lt by (simp add: nth_append)
    with eq have "xs ! i = xs ! Suc i" by simp
    then have "map f xs ! i = map f xs ! Suc i" using lt by simp
    moreover have "(map f xs ! i = map f xs ! Suc i) = (i = Suc i)"
      by (rule nth_eq_iff_index_eq[OF assms(2)]) (use lt in simp_all)
    ultimately show False by simp
  qed
qed

text \<open>
  Claim C10. A pass that rejects the exclusion of the period at index \<open>i\<close> leaves the
  list of bills without position \<open>i\<close>, followed by that period: the same periods, with
  the outlier last. When the bills are distinct objects, the list is the one before the
  pass only if the outlier was already the last bill.
\<close>

theorem C10_restore_appends:
  assumes "exclude_outlier d h = Inr (Break h')"
  shows "\<exists>i<length (bills h).
           argmax (map (\<lambda>bill. \<bar>ua bill - avg_ua h\<bar>) (bills h)) = Inr i \<and>
           bills h' = (take i (bills h) @ drop (Suc i) (bills h)) @ [bills h ! i] \<and>
           mset (bills h') = mset (bills h) \<and>
           (distinct (map oid (bills h)) \<longrightarrow> (bills h' = bills h \<longleftrightarrow> Suc i = length (bills h)))"
  using assms
proof (cases rule: exclude_outlier_cases)
  case (1 i a p)
  from 1(4) have b: "bills h' = (take i (bills h) @ drop (Suc i) (bills h)) @ [bills h ! i]"
    by (simp split: if_splits)
  moreover have "mset (bills h') = mset (bills h)"
    unfolding b using mset_pop_append[OF 1(2)] .
  moreover have "distinct (map oid (bills h)) \<longrightarrow> (bills h' = bills h \<longleftrightarrow> Suc i = length (bills h))"
    unfolding b using pop_append_same_iff[OF 1(2)] by blast
  ultimately show ?thesis using 1(1,2) by blast
qed

lemma ua_stats_single: "u \<noteq> 0 \<Longrightarrow> ua_stats [u] = Inr (u, 0)"
  by (simp add: ua_stats_def mean_def pstdev_def py_div_def)

lemma ua_stats_single_pct:
  assumes "ua_stats us = Inr (a, p)" and "length us = 1"
  shows "p = 0"
proof -
  from assms(2) obtain u where "us = [u]" by (cases us) auto
  with assms(1) show ?thesis
    by (auto simp: ua_stats_def mean_def pstdev_def py_div_def split: if_splits)
qed

lemma refine_trial_single:
  assumes "refine_trial h bp = Inr (hs, us, a, p)" and "length (bills h) = 1"
  shows "p = 0"
proof -
  from assms(1) have "ua_stats us = Inr (a, p)"
    by (auto simp: refine_trial_def Let_def split: sum.splits prod.splits)
  moreover have "length us = 1" using refine_trial_ok(3)[OF assms(1)] assms(2) by simp
  ultimately show ?thesis by (rule ua_stats_single_pct)
qed

lemma refine_loop_single:
  assumes "refine_loop s h dirs = Inr h'" and "length (bills h) = 1" and "stdev_pct h = 0"
  shows "h' = h"
proof (rule refine_loop_invariant[OF assms(1), where P = "\<lambda>x. x = h"])
  show "h = h" by simp
next
  fix x x' :: Home and ds ds' :: "int list"
  assume x: "x = h" and st: "refine_step s x ds = Inr (Some (x', ds'))"
  from st show "x' = h"
  proof (cases rule: refine_step_cases)
    case (commit hs us a p)
    from refine_trial_single[OF commit(2)] x assms(2) have "p = 0" by simp
    with commit(3) x assms(3) show ?thesis by simp
  next
    case drop
    with x show ?thesis by simp
  qed
qed

text \<open>
  Claim C9. With two retained periods, \<open>stdev_pct\<close> above a maximum that is not
  negative, and \<open>max_stdev_pct_diff\<close> at most \<open>stdev_pct\<close>: when the period that is
  not the biggest outlier has a \<open>ua\<close> other than zero and the search that follows
  returns, the loop returns without an error a home with that single period,
  \<open>stdev_pct = 0\<close>, and the single \<open>ua\<close> as \<open>avg_ua\<close>. Nothing stops the number of
  retained periods from falling below two.
\<close>

theorem C9_single_period_left:
  assumes "length (bills h) = 2"
    and "argmax (map (\<lambda>bill. \<bar>ua bill - avg_ua h\<bar>) (bills h)) = Inr i"
    and "ua (bills h ! (1 - i)) \<noteq> 0"
    and "stdev_pct h > stdev_pct_max" and "0 \<le> stdev_pct_max"
    and "max_stdev_pct_diff \<le> stdev_pct h"
    and "refine_balance_point sens
           (h\<lparr>bills := [bills h ! (1 - i)], uas := [ua (bills h ! (1 - i))],
              avg_ua := ua (bills h ! (1 - i)), stdev_pct := 0\<rparr>) = Inr h'"
  shows "outlier_loop stdev_pct_max max_stdev_pct_diff sens h = Inr h' \<and>
         h' = h\<lparr>bills := [bills h ! (1 - i)], uas := [ua (bills h ! (1 - i))],
                avg_ua := ua (bills h ! (1 - i)), stdev_pct := 0\<rparr> \<and>
         length (bills h') = 1 \<and> stdev_pct h' = 0"
proof -
  let ?kept = "bills h ! (1 - i)"
  let ?h1 = "h\<lparr>bills := [?kept], uas := [ua ?kept], avg_ua := ua ?kept, stdev_pct := 0\<rparr>"
  from argmax_first_max(1)[OF assms(2)] assms(1) have i: "i = 0 \<or> i = 1" by auto
  from assms(1) obtain b0 b1 where bs: "bills h = [b0, b1]"
    by (cases "bills h"; simp) (metis Suc_length_conv length_0_conv)
  have rest: "take i (bills h) @ drop (Suc i) (bills h) = [?kept]"
    using i bs by auto
  have st: "ua_stats (map ua (take i (bills h) @ drop (Suc i) (bills h))) = Inr (ua ?kept, 0)"
    unfolding rest using ua_stats_single[OF assms(3)] by simp
  have ex: "exclude_outlier max_stdev_pct_diff h = Inr (Continue ?h1)"
    using exclude_outlier_eval[OF assms(2) st, of max_stdev_pct_diff] assms(6) rest by simp
  have eq: "h' = ?h1"
    by (rule refine_loop_single[OF assms(7)[unfolded refine_balance_point_def]]) simp_all
  have "outlier_loop stdev_pct_max max_stdev_pct_diff sens h
      = outlier_loop stdev_pct_max max_stdev_pct_diff sens h'"
    by (rule outlier_loop_Continue[OF assms(4) ex assms(7)])
  also have "\<dots> = Inr h'"
    by (rule outlier_loop_done) (use assms(5) in \<open>simp add: eq\<close>)
  finally show ?thesis using eq by simp
qed

section \<open>Example homes\<close>

text \<open>
  Homes heated with gas at efficiency 0.96, with billing periods of one day: the partial
  UA of a period is 4000 times its usage.
\<close>

definition gas_bill :: "nat \<Rightarrow> real \<Rightarrow> real \<Rightarrow> real \<Rightarrow> BillingPeriod" where
  "gas_bill i t u bp =
     \<lparr> oid = i, avg_temps = [t], usage = u, days = 1, avg_heating_usage = u,
       total_hdd = bp - t, partial_ua = 4000 * u, ua = 4000 * u / (bp - t) \<rparr>"

definition gas_home :: "real \<Rightarrow> real \<Rightarrow> BillingPeriod list \<Rightarrow> real list \<Rightarrow> real \<Rightarrow> real \<Rightarrow> Home" where
  "gas_home bp sp bs us a p =
     \<lparr> fuel_type = GAS, heat_sys_efficiency = 96 / 100, balance_point = bp,
       thermostat_set_point = sp, avg_non_heating_usage = 0,
       bills = bs, uas = us, avg_ua = a, stdev_pct = p \<rparr>"

lemma gas_home_fields:
  "balance_point (gas_home bp sp bs us a p) = bp"
  "thermostat_set_point (gas_home bp sp bs us a p) = sp"
  "bills (gas_home bp sp bs us a p) = bs"
  "uas (gas_home bp sp bs us a p) = us"
  "avg_ua (gas_home bp sp bs us a p) = a"
  "stdev_pct (gas_home bp sp bs us a p) = p"
  by (simp_all add: gas_home_def)

lemma gas_home_updates:
  "(gas_home bp sp bs us a p)\<lparr>balance_point := bp', avg_ua := a', stdev_pct := p', bills := bs'\<rparr>
     = gas_home bp' sp bs' us a' p'"
  "(gas_home bp sp bs us a p)\<lparr>uas := us', avg_ua := a', stdev_pct := p'\<rparr>
     = gas_home bp sp bs us' a' p'"
  "(gas_home bp sp bs us a p)\<lparr>bills := bs'\<rparr> = gas_home bp sp bs' us a p"
  "(gas_home bp sp bs us a p)\<lparr>bills := bs', uas := us', avg_ua := a', stdev_pct := p'\<rparr>
     = gas_home bp sp bs' us' a' p'"
  by (simp_all add: gas_home_def)

lemma gas_home_init:
  assumes "t0 < bp" and "t1 < bp"
  shows "initialize_billing_periods [[t0], [t1]] [u0, u1] 0 (Home_init GAS (96 / 100) bp sp) =
     Inr (gas_home bp sp [gas_bill 0 t0 u0 bp, gas_bill 1 t1 u1 bp] [] 0 0)"
  using assms
  by (simp add: initialize_billing_periods_def Home_init_def BillingPeriod_init_def py_div_def
      period_hdd_def hdd_def calculate_partial_ua_def gas_home_def gas_bill_def Let_def)

lemma gas_trial_pair:
  assumes "t0 < bp'" and "t1 < bp'" and "4000 * u0 / (bp' - t0) + 4000 * u1 / (bp' - t1) \<noteq> 0"
  shows "refine_trial (gas_home bp sp [gas_bill i0 t0 u0 bp, gas_bill i1 t1 u1 bp] us a p) bp' =
     Inr ([bp' - t0, bp' - t1], [4000 * u0 / (bp' - t0), 4000 * u1 / (bp' - t1)],
          (4000 * u0 / (bp' - t0) + 4000 * u1 / (bp' - t1)) / 2,
          (\<bar>4000 * u0 / (bp' - t0) - 4000 * u1 / (bp' - t1)\<bar> / 2) /
            ((4000 * u0 / (bp' - t0) + 4000 * u1 / (bp' - t1)) / 2))"
proof -
  have hs: "map (\<lambda>bill. period_hdd (avg_temps bill) bp') [gas_bill i0 t0 u0 bp, gas_bill i1 t1 u1 bp]
      = [bp' - t0, bp' - t1]"
    using assms(1,2) by (simp add: gas_bill_def period_hdd_def hdd_def)
  have ps: "map partial_ua [gas_bill i0 t0 u0 bp, gas_bill i1 t1 u1 bp] = [4000 * u0, 4000 * u1]"
    by (simp add: gas_bill_def)
  have dv: "divide_each [4000 * u0, 4000 * u1] [bp' - t0, bp' - t1]
      = Inr [4000 * u0 / (bp' - t0), 4000 * u1 / (bp' - t1)]"
    using assms(1,2) by (simp add: py_div_def)
  have st: "ua_stats [4000 * u0 / (bp' - t0), 4000 * u1 / (bp' - t1)] =
      Inr ((4000 * u0 / (bp' - t0) + 4000 * u1 / (bp' - t1)) / 2,
          (\<bar>4000 * u0 / (bp' - t0) - 4000 * u1 / (bp' - t1)\<bar> / 2) /
            ((4000 * u0 / (bp' - t0) + 4000 * u1 / (bp' - t1)) / 2))"
    using assms(3) unfolding ua_stats_def mean_def pstdev_pair py_div_def by simp
  show ?thesis
    unfolding refine_trial_def Let_def gas_home_fields
    by (simp only: hs ps dv st sum.case prod.case)
qed

lemma gas_store_pair:
  "store_hdd_ua [gas_bill i0 t0 u0 bp, gas_bill i1 t1 u1 bp] [bp' - t0, bp' - t1]
      [4000 * u0 / (bp' - t0), 4000 * u1 / (bp' - t1)]
   = [gas_bill i0 t0 u0 bp', gas_bill i1 t1 u1 bp']"
  by (simp add: store_hdd_ua_def gas_bill_def)

text \<open>One pass of the local search over a home with two one-day bills.\<close>

lemma gas_step_pair:
  assumes "bp' = bp + real_of_int d * s" and "t0 < bp'" and "t1 < bp'"
    and "a' = (4000 * u0 / (bp' - t0) + 4000 * u1 / (bp' - t1)) / 2" and "a' \<noteq> 0"
    and "p' = (\<bar>4000 * u0 / (bp' - t0) - 4000 * u1 / (bp' - t1)\<bar> / 2) / a'"
    and "bp' \<le> sp"
  shows "refine_step s (gas_home bp sp [gas_bill i0 t0 u0 bp, gas_bill i1 t1 u1 bp] us a p) (d # ds) =
     (if p' < p
      then Inr (Some (gas_home bp' sp [gas_bill i0 t0 u0 bp', gas_bill i1 t1 u1 bp'] us a' p',
                      if length ds = 1 then [d] else d # ds))
      else Inr (Some (gas_home bp sp [gas_bill i0 t0 u0 bp, gas_bill i1 t1 u1 bp] us a p, ds)))"
proof -
  let ?h = "gas_home bp sp [gas_bill i0 t0 u0 bp, gas_bill i1 t1 u1 bp] us a p"
  have nz: "4000 * u0 / (bp' - t0) + 4000 * u1 / (bp' - t1) \<noteq> 0"
    using assms(4,5) by auto
  have tr: "refine_trial ?h (balance_point ?h + real_of_int d * s) =
      Inr ([bp' - t0, bp' - t1], [4000 * u0 / (bp' - t0), 4000 * u1 / (bp' - t1)], a', p')"
    unfolding gas_home_fields assms(1)[symmetric] assms(6) assms(4)
    by (rule gas_trial_pair[OF assms(2,3) nz])
  have le: "balance_point ?h + real_of_int d * s \<le> thermostat_set_point ?h"
    unfolding gas_home_fields assms(1)[symmetric] by (rule assms(7))
  show ?thesis
  proof (cases "p' < p")
    case True
    then have "p' < stdev_pct ?h" by (simp add: gas_home_fields)
    from refine_step_commit[OF tr le this, of ds] True show ?thesis
      unfolding gas_home_fields gas_home_updates gas_store_pair assms(1)[symmetric] by simp
  next
    case False
    then have "\<not> p' < stdev_pct ?h" by (simp add: gas_home_fields)
    from refine_step_drop[OF tr le this, of ds] False show ?thesis by simp
  qed
qed

lemma gas_step_break:
  assumes "bp + real_of_int d * s > sp"
  shows "refine_step s (gas_home bp sp bs us a p) (d # ds) = Inr None"
  by (rule refine_step_break) (simp add: gas_home_fields assms)

lemma gas_refine_break:
  assumes "bp + s > sp"
  shows "refine_balance_point s (gas_home bp sp bs us a p) = Inr (gas_home bp sp bs us a p)"
  unfolding refine_balance_point_def refine_loop_Cons
  using gas_step_break[of sp bp 1 s bs us a p "[- 1]"] assms by simp

subsection \<open>A home whose search moves up twice\<close>

lemma search_step_62:
  "refine_step 2 (gas_home 60 68 [gas_bill 0 50 4 60, gas_bill 1 40 7 60] [1600, 1400] 1500 (1 / 15)) [1, - 1]
    = Inr (Some (gas_home 62 68 [gas_bill 0 50 4 62, gas_bill 1 40 7 62] [1600, 1400] (43000 / 33) (1 / 43), [1]))"
  using gas_step_pair[of 62 60 1 2 50 40 "43000 / 33" 4 7 "1 / 43" 68 0 1 "[1600, 1400]" 1500 "1 / 15" "[- 1]"]
  by simp

lemma search_step_64:
  "refine_step 2 (gas_home 62 68 [gas_bill 0 50 4 62, gas_bill 1 40 7 62] [1600, 1400] (43000 / 33) (1 / 43)) [1]
    = Inr (Some (gas_home 64 68 [gas_bill 0 50 4 64, gas_bill 1 40 7 64] [1600, 1400] (24250 / 21) (1 / 97), [1]))"
  using gas_step_pair[of 64 62 1 2 50 40 "24250 / 21" 4 7 "1 / 97" 68 0 1 "[1600, 1400]" "43000 / 33" "1 / 43" "[]"]
  by simp

lemma search_step_66:
  "refine_step 2 (gas_home 64 68 [gas_bill 0 50 4 64, gas_bill 1 40 7 64] [1600, 1400] (24250 / 21) (1 / 97)) [1]
    = Inr (Some (gas_home 64 68 [gas_bill 0 50 4 64, gas_bill 1 40 7 64] [1600, 1400] (24250 / 21) (1 / 97), []))"
  using gas_step_pair[of 66 64 1 2 50 40 "13500 / 13" 4 7 "1 / 27" 68 0 1 "[1600, 1400]" "24250 / 21" "1 / 97" "[]"]
  by simp

definition search_home :: "real \<Rightarrow> real list \<Rightarrow> real \<Rightarrow> real \<Rightarrow> Home" where
  "search_home bp us a p = gas_home bp 68 [gas_bill 0 50 4 bp, gas_bill 1 40 7 bp] us a p"

lemma search_home_init:
  "initialize_billing_periods [[50], [40]] [4, 7] 0 (Home_init GAS (96 / 100) 60 68)
     = Inr (search_home 60 [] 0 0)"
  unfolding search_home_def by (rule gas_home_init) simp_all

lemma search_pass_62:
  "refine_step 2 (search_home 60 [1600, 1400] 1500 (1 / 15)) [1, - 1]
    = Inr (Some (search_home 62 [1600, 1400] (43000 / 33) (1 / 43), [1]))"
  unfolding search_home_def by (rule search_step_62)

lemma search_pass_64:
  "refine_step 2 (search_home 62 [1600, 1400] (43000 / 33) (1 / 43)) [1]
    = Inr (Some (search_home 64 [1600, 1400] (24250 / 21) (1 / 97), [1]))"
  unfolding search_home_def by (rule search_step_64)

lemma search_pass_66:
  "refine_step 2 (search_home 64 [1600, 1400] (24250 / 21) (1 / 97)) [1]
    = Inr (Some (search_home 64 [1600, 1400] (24250 / 21) (1 / 97), []))"
  unfolding search_home_def by (rule search_step_66)

lemma search_refine:
  "refine_balance_point 2 (search_home 60 [1600, 1400] 1500 (1 / 15))
     = Inr (search_home 64 [1600, 1400] (24250 / 21) (1 / 97))"
  unfolding refine_balance_point_def
  by (simp add: refine_loop_Nil refine_loop_Cons search_pass_62 search_pass_64 search_pass_66)

lemma search_stats: "ua_stats [1600, 1400] = Inr (1500, 1 / 15)"
  by (simp add: ua_stats_def mean_def pstdev_pair py_div_def)

lemma search_uas: "map ua (bills (search_home 60 us a p)) = [1600, 1400]"
  by (simp add: search_home_def gas_home_fields gas_bill_def)

lemma search_fields:
  "balance_point (search_home bp us a p) = bp"
  "thermostat_set_point (search_home bp us a p) = 68"
  "stdev_pct (search_home bp us a p) = p"
  by (simp_all add: search_home_def gas_home_fields)

lemma search_with_stats:
  "(search_home bp us a p)\<lparr>uas := us', avg_ua := a', stdev_pct := p'\<rparr> = search_home bp us' a' p'"
  by (simp add: search_home_def gas_home_updates)

lemma search_calculate:
  "calculate_balance_point_and_ua 2 (1 / 10) (1 / 100) (1 / 2) (search_home 60 [] 0 0)
     = Inr (search_home 64 [1600, 1400] (24250 / 21) (1 / 97))"
proof -
  have l: "outlier_loop (1 / 10) (1 / 100) (1 / 2) (search_home 64 [1600, 1400] (24250 / 21) (1 / 97))
      = Inr (search_home 64 [1600, 1400] (24250 / 21) (1 / 97))"
    by (rule outlier_loop_done) (simp add: search_fields)
  show ?thesis
    unfolding calculate_balance_point_and_ua_def Let_def search_uas
    by (simp add: search_stats search_with_stats search_refine l)
qed

lemma search_reaches_62:
  "refine_reaches 2 (search_home 60 [1600, 1400] 1500 (1 / 15), [1, - 1])
     (search_home 62 [1600, 1400] (43000 / 33) (1 / 43), [1])"
  by (rule refine_reaches.pass[OF refine_reaches.start _ search_pass_62]) simp

lemma search_reaches_64:
  "refine_reaches 2 (search_home 62 [1600, 1400] (43000 / 33) (1 / 43), [1])
     (search_home 64 [1600, 1400] (24250 / 21) (1 / 97), [1])"
  by (rule refine_reaches.pass[OF refine_reaches.start _ search_pass_64]) simp

text \<open>
  The search of the example home: from balance point 60 it commits 62 and 64, with
  \<open>stdev_pct\<close> going from 1/15 to 1/43 to 1/97, and rejects 66.
\<close>

theorem C3_monotone_search_witness:
  "refine_balance_point 2 (search_home 60 [1600, 1400] 1500 (1 / 15))
     = Inr (search_home 64 [1600, 1400] (24250 / 21) (1 / 97)) \<and>
   stdev_pct (search_home 64 [1600, 1400] (24250 / 21) (1 / 97))
     \<le> stdev_pct (search_home 60 [1600, 1400] 1500 (1 / 15)) \<and>
   refine_step 2 (search_home 60 [1600, 1400] 1500 (1 / 15)) [1, - 1]
     = Inr (Some (search_home 62 [1600, 1400] (43000 / 33) (1 / 43), [1])) \<and>
   search_home 62 [1600, 1400] (43000 / 33) (1 / 43) \<noteq> search_home 60 [1600, 1400] 1500 (1 / 15) \<and>
   stdev_pct (search_home 62 [1600, 1400] (43000 / 33) (1 / 43))
     < stdev_pct (search_home 60 [1600, 1400] 1500 (1 / 15)) \<and>
   refine_reaches 2 (search_home 60 [1600, 1400] 1500 (1 / 15), [1, - 1])
     (search_home 62 [1600, 1400] (43000 / 33) (1 / 43), [1]) \<and>
   refine_reaches 2 (search_home 62 [1600, 1400] (43000 / 33) (1 / 43), [1])
     (search_home 64 [1600, 1400] (24250 / 21) (1 / 97), [1]) \<and>
   stdev_pct (search_home 64 [1600, 1400] (24250 / 21) (1 / 97))
     < stdev_pct (search_home 62 [1600, 1400] (43000 / 33) (1 / 43))"
proof -
  let ?h60 = "search_home 60 [1600, 1400] 1500 (1 / 15)"
  let ?h62 = "search_home 62 [1600, 1400] (43000 / 33) (1 / 43)"
  let ?h64 = "search_home 64 [1600, 1400] (24250 / 21) (1 / 97)"
  have ne: "?h62 \<noteq> ?h60" "?h64 \<noteq> ?h62"
    using search_fields(1)[of 62] search_fields(1)[of 60] search_fields(1)[of 64]
    by (metis numeral_eq_iff semiring_norm(88,89) num.inject(1))+
  from C3_monotone_search[where sens = 2 and ?h0.0 = ?h60 and hf = ?h64 and h = ?h60
      and dirs = "[1, - 1]" and h' = ?h62 and dirs' = "[1]" and ?h1.0 = ?h62 and ?d1.0 = "[1]"
      and ?h2.0 = ?h64 and ?d2.0 = "[1]"]
    search_refine search_pass_62 search_reaches_62 search_reaches_64 ne
  show ?thesis by simp
qed

lemma search_differ:
  "search_home 62 [1600, 1400] (43000 / 33) (1 / 43) \<noteq> search_home 60 [1600, 1400] 1500 (1 / 15)"
proof -
  have "balance_point (search_home 62 [1600, 1400] (43000 / 33) (1 / 43))
      \<noteq> balance_point (search_home 60 [1600, 1400] 1500 (1 / 15))"
    by (simp add: search_fields)
  then show ?thesis by auto
qed




lemma search_customizable:
  "calculate_balance_point_and_ua_customizable [] 2 (search_home 60 [] 0 0)
     = Inr (search_home 64 [1600, 1400] (24250 / 21) (1 / 97))"
proof -
  have f: "filter (\<lambda>bp. oid bp \<notin> set (map oid [])) (bills (search_home 60 [] 0 0))
        = bills (search_home 60 [] 0 0)" by simp
  have u: "(search_home 60 [1600, 1400] 1500 (1 / 15))\<lparr>bills := bills (search_home 60 [] 0 0)\<rparr>
        = search_home 60 [1600, 1400] 1500 (1 / 15)"
    by (simp add: search_home_def gas_home_def)
  show ?thesis
    unfolding calculate_balance_point_and_ua_customizable_def Let_def f search_uas
    by (simp add: search_stats u search_with_stats search_refine)
qed

text \<open>
  The example home starts at 60 with set point 68, and each of the three methods leaves
  it at 64.
\<close>

theorem C4_balance_point_bound_witness:
  "refine_balance_point 2 (search_home 60 [1600, 1400] 1500 (1 / 15))
     = Inr (search_home 64 [1600, 1400] (24250 / 21) (1 / 97)) \<and>
   calculate_balance_point_and_ua 2 (1 / 10) (1 / 100) (1 / 2) (search_home 60 [] 0 0)
     = Inr (search_home 64 [1600, 1400] (24250 / 21) (1 / 97)) \<and>
   calculate_balance_point_and_ua_customizable [] 2 (search_home 60 [] 0 0)
     = Inr (search_home 64 [1600, 1400] (24250 / 21) (1 / 97)) \<and>
   balance_point (search_home 60 [] 0 0) \<le> thermostat_set_point (search_home 60 [] 0 0) \<and>
   balance_point (search_home 64 [1600, 1400] (24250 / 21) (1 / 97))
     \<le> thermostat_set_point (search_home 64 [1600, 1400] (24250 / 21) (1 / 97))"
proof -
  have le: "balance_point (search_home 60 [] 0 0) \<le> thermostat_set_point (search_home 60 [] 0 0)"
    by (simp add: search_fields)
  from C4_balance_point_bound[of 2 "search_home 60 [] 0 0"
      "search_home 64 [1600, 1400] (24250 / 21) (1 / 97)" 2 "1 / 10" "1 / 100" "1 / 2" "[]"]
    search_calculate le
  have "balance_point (search_home 64 [1600, 1400] (24250 / 21) (1 / 97))
     \<le> thermostat_set_point (search_home 64 [1600, 1400] (24250 / 21) (1 / 97))"
    by blast
  with search_refine search_calculate search_customizable le show ?thesis by simp
qed

definition hot_home :: "real list \<Rightarrow> real \<Rightarrow> real \<Rightarrow> Home" where
  "hot_home us a p = gas_home 70 68 [gas_bill 0 50 4 70, gas_bill 1 40 7 70] us a p"

lemma hot_home_init:
  "initialize_billing_periods [[50], [40]] [4, 7] 0 (Home_init GAS (96 / 100) 70 68)
     = Inr (hot_home [] 0 0)"
  unfolding hot_home_def by (rule gas_home_init) simp_all

lemma hot_calculate:
  "calculate_balance_point_and_ua 2 (1 / 10) (1 / 100) (1 / 2) (hot_home [] 0 0)
     = Inr (hot_home [800, 2800 / 3] (2600 / 3) (1 / 13))"
proof -
  have u: "map ua (bills (hot_home [] 0 0)) = [800, 2800 / 3]"
    by (simp add: hot_home_def gas_home_fields gas_bill_def)
  have st: "ua_stats [800, 2800 / 3] = Inr (2600 / 3, 1 / 13)"
    by (simp add: ua_stats_def mean_def pstdev_pair py_div_def)
  have w: "(hot_home [] 0 0)\<lparr>uas := [800, 2800 / 3], avg_ua := 2600 / 3, stdev_pct := 1 / 13\<rparr>
      = hot_home [800, 2800 / 3] (2600 / 3) (1 / 13)"
    by (simp add: hot_home_def gas_home_updates)
  have r: "refine_balance_point 2 (hot_home [800, 2800 / 3] (2600 / 3) (1 / 13))
      = Inr (hot_home [800, 2800 / 3] (2600 / 3) (1 / 13))"
    unfolding hot_home_def by (rule gas_refine_break) simp
  have l: "outlier_loop (1 / 10) (1 / 100) (1 / 2) (hot_home [800, 2800 / 3] (2600 / 3) (1 / 13))
      = Inr (hot_home [800, 2800 / 3] (2600 / 3) (1 / 13))"
    by (rule outlier_loop_done) (simp add: hot_home_def gas_home_fields)
  show ?thesis
    unfolding calculate_balance_point_and_ua_def Let_def u
    by (simp add: st w r l)
qed

text \<open>
  Claim C4 as stated fails: \<^verbatim>\<open>Home.__init__\<close> accepts an initial balance point above
  the set point. With initial balance point 70 and set point 68 the first trial, 72,
  stops the search, and \<^verbatim>\<open>calculate_balance_point_and_ua\<close> returns with the balance
  point still at 70.
\<close>

theorem C4_initial_point_above_set_point:
  "initialize_billing_periods [[50], [40]] [4, 7] 0 (Home_init GAS (96 / 100) 70 68)
     = Inr (hot_home [] 0 0) \<and>
   calculate_balance_point_and_ua 2 (1 / 10) (1 / 100) (1 / 2) (hot_home [] 0 0)
     = Inr (hot_home [800, 2800 / 3] (2600 / 3) (1 / 13)) \<and>
   balance_point (hot_home [800, 2800 / 3] (2600 / 3) (1 / 13)) = 70 \<and>
   thermostat_set_point (hot_home [800, 2800 / 3] (2600 / 3) (1 / 13)) = 68 \<and>
   \<not> balance_point (hot_home [800, 2800 / 3] (2600 / 3) (1 / 13))
       \<le> thermostat_set_point (hot_home [800, 2800 / 3] (2600 / 3) (1 / 13))"
proof (intro conjI)
  show "initialize_billing_periods [[50], [40]] [4, 7] 0 (Home_init GAS (96 / 100) 70 68)
     = Inr (hot_home [] 0 0)"
    by (rule hot_home_init)
  show "calculate_balance_point_and_ua 2 (1 / 10) (1 / 100) (1 / 2) (hot_home [] 0 0)
     = Inr (hot_home [800, 2800 / 3] (2600 / 3) (1 / 13))"
    by (rule hot_calculate)
qed (simp_all add: hot_home_def gas_home_fields)

subsection \<open>A home that is left with one billing period\<close>

text \<open>
  Two periods of one day at 58 degrees with usages 3 and 2, in a home whose balance
  point is at the set point 68: the UA values are 1200 and 800.
\<close>

definition pair_built :: Home where
  "pair_built = gas_home 68 68 [gas_bill 0 58 3 68, gas_bill 1 58 2 68] [] 0 0"

definition pair_start :: Home where
  "pair_start = gas_home 68 68 [gas_bill 0 58 3 68, gas_bill 1 58 2 68] [1200, 800] 1000 (1 / 5)"

definition last_home :: Home where
  "last_home = gas_home 68 68 [gas_bill 1 58 2 68] [800] 800 0"

lemma pair_init:
  "initialize_billing_periods [[58], [58]] [3, 2] 0 (Home_init GAS (96 / 100) 68 68)
     = Inr pair_built"
  unfolding pair_built_def by (rule gas_home_init) simp_all

lemma pair_refine: "refine_balance_point 2 pair_start = Inr pair_start"
  unfolding pair_start_def by (rule gas_refine_break) simp

lemma pair_argmax:
  "argmax (map (\<lambda>bill. \<bar>ua bill - avg_ua pair_start\<bar>) (bills pair_start)) = Inr 0"
  by (simp add: pair_start_def gas_home_fields gas_bill_def argmax_def)

lemma pair_excluded:
  "pair_start\<lparr>bills := [bills pair_start ! (1 - 0)],
              uas := [ua (bills pair_start ! (1 - 0))],
              avg_ua := ua (bills pair_start ! (1 - 0)),
              stdev_pct := 0\<rparr> = last_home"
  by (simp add: pair_start_def last_home_def gas_home_def gas_bill_def)

lemma last_refine: "refine_balance_point (1 / 2) last_home = Inr last_home"
  unfolding last_home_def by (rule gas_refine_break) simp

text \<open>
  The first search stops at once, at the set point, with \<open>stdev_pct = 1/5\<close>. Both
  periods are 200 away from the mean 1000, so the loop takes out the first, and
  returns a home with the second period alone, \<open>avg_ua = 800\<close> and \<open>stdev_pct = 0\<close>.
\<close>

theorem C9_single_period_left_witness:
  "initialize_billing_periods [[58], [58]] [3, 2] 0 (Home_init GAS (96 / 100) 68 68)
     = Inr pair_built \<and>
   calculate_balance_point_and_ua 2 (1 / 10) (1 / 100) (1 / 2) pair_built = Inr last_home \<and>
   length (bills pair_start) = 2 \<and>
   argmax (map (\<lambda>bill. \<bar>ua bill - avg_ua pair_start\<bar>) (bills pair_start)) = Inr 0 \<and>
   stdev_pct pair_start > 1 / 10 \<and>
   outlier_loop (1 / 10) (1 / 100) (1 / 2) pair_start = Inr last_home \<and>
   map oid (bills last_home) = [1] \<and> length (bills last_home) = 1 \<and>
   avg_ua last_home = 800 \<and> stdev_pct last_home = 0"
proof -
  have two: "length (bills pair_start) = 2"
    by (simp add: pair_start_def gas_home_fields)
  have kept: "ua (bills pair_start ! (1 - 0)) \<noteq> 0"
    by (simp add: pair_start_def gas_home_fields gas_bill_def)
  have above: "stdev_pct pair_start > 1 / 10" and diff: "1 / 100 \<le> stdev_pct pair_start"
    by (simp_all add: pair_start_def gas_home_fields)
  have rf: "refine_balance_point (1 / 2)
           (pair_start\<lparr>bills := [bills pair_start ! (1 - 0)],
              uas := [ua (bills pair_start ! (1 - 0))],
              avg_ua := ua (bills pair_start ! (1 - 0)), stdev_pct := 0\<rparr>) = Inr last_home"
    unfolding pair_excluded by (rule last_refine)
  from C9_single_period_left[OF two pair_argmax kept above _ diff rf]
  have loop: "outlier_loop (1 / 10) (1 / 100) (1 / 2) pair_start = Inr last_home"
    and one: "length (bills last_home) = 1" and zero: "stdev_pct last_home = 0"
    by simp_all
  have u: "map ua (bills pair_built) = [1200, 800]"
    by (simp add: pair_built_def gas_home_fields gas_bill_def)
  have st: "ua_stats [1200, 800] = Inr (1000, 1 / 5)"
    by (simp add: ua_stats_def mean_def pstdev_pair py_div_def)
  have w: "pair_built\<lparr>uas := [1200, 800], avg_ua := 1000, stdev_pct := 1 / 5\<rparr> = pair_start"
    by (simp add: pair_built_def pair_start_def gas_home_updates)
  have c: "calculate_balance_point_and_ua 2 (1 / 10) (1 / 100) (1 / 2) pair_built = Inr last_home"
    unfolding calculate_balance_point_and_ua_def Let_def u
    by (simp add: st w pair_refine loop)
  have f: "map oid (bills last_home) = [1]" "avg_ua last_home = 800"
    by (simp_all add: last_home_def gas_home_fields gas_bill_def)
  from pair_init c two pair_argmax above loop f one zero show ?thesis by simp
qed

subsection \<open>A home with two equally distant outliers\<close>

definition tie_pct :: real where
  "tie_pct = sqrt (320000 / 3) / 800"

lemma tie_pct_bounds: "3 / 10 < tie_pct" "tie_pct < 13 / 30"
proof -
  have "240 < sqrt (320000 / 3)" by (rule real_less_rsqrt) simp
  then show "3 / 10 < tie_pct" by (simp add: tie_pct_def)
  have "sqrt (320000 / 3) < 1040 / 3" by (rule real_less_lsqrt) (simp_all add: power2_eq_square)
  then show "tie_pct < 13 / 30" by (simp add: tie_pct_def)
qed



definition capped_home :: "BillingPeriod list \<Rightarrow> real list \<Rightarrow> real \<Rightarrow> real \<Rightarrow> Home" where
  "capped_home bs us a p = gas_home 68 68 bs us a p"


lemma capped_fields:
  "bills (capped_home bs us a p) = bs"
  "avg_ua (capped_home bs us a p) = a"
  "stdev_pct (capped_home bs us a p) = p"
  "uas (capped_home bs us a p) = us"
  "balance_point (capped_home bs us a p) = 68"
  by (simp_all add: capped_home_def gas_home_fields)

lemma capped_updates:
  "(capped_home bs us a p)\<lparr>uas := us', avg_ua := a', stdev_pct := p'\<rparr> = capped_home bs us' a' p'"
  "(capped_home bs us a p)\<lparr>bills := bs'\<rparr> = capped_home bs' us a p"
  "(capped_home bs us a p)\<lparr>bills := bs', uas := us', avg_ua := a', stdev_pct := p'\<rparr>
     = capped_home bs' us' a' p'"
  by (simp_all add: capped_home_def gas_home_updates)


lemma gas_bill_ua: "ua (gas_bill i t u bp) = 4000 * u / (bp - t)"
  by (simp add: gas_bill_def)

lemma tie_argmax_first:
  "argmax (map (\<lambda>bill. \<bar>ua bill - avg_ua (capped_home [gas_bill 0 58 3 68, gas_bill 1 58 2 68, gas_bill 2 58 1 68]
              [1200, 800, 400] 800 tie_pct)\<bar>)
       (bills (capped_home [gas_bill 0 58 3 68, gas_bill 1 58 2 68, gas_bill 2 58 1 68]
              [1200, 800, 400] 800 tie_pct))) = Inr 0"
  by (simp add: capped_fields gas_bill_ua argmax_def)


lemma tie_stats_rest_first:
  "ua_stats (map ua (take 0 (bills (capped_home [gas_bill 0 58 3 68, gas_bill 1 58 2 68, gas_bill 2 58 1 68]
              [1200, 800, 400] 800 tie_pct)) @
         drop (Suc 0) (bills (capped_home [gas_bill 0 58 3 68, gas_bill 1 58 2 68, gas_bill 2 58 1 68]
              [1200, 800, 400] 800 tie_pct)))) = Inr (600, 1 / 3)"
  by (simp add: capped_fields gas_bill_ua ua_stats_def mean_def pstdev_pair py_div_def)

definition tie_start :: Home where
  "tie_start = capped_home [gas_bill 0 58 3 68, gas_bill 1 58 2 68, gas_bill 2 58 1 68]
                 [1200, 800, 400] 800 tie_pct"

definition tie_stable :: Home where
  "tie_stable = capped_home [gas_bill 1 58 2 68, gas_bill 2 58 1 68, gas_bill 0 58 3 68]
                  [1200, 800, 400] 800 tie_pct"


lemma tie_exclude_first: "exclude_outlier (1 / 10) tie_start = Inr (Break tie_stable)"
proof -
  have "tie_pct - 1 / 3 < 1 / 10" using tie_pct_bounds(2) by simp
  with exclude_outlier_eval[OF tie_argmax_first tie_stats_rest_first, of "1 / 10"]
  show ?thesis by (simp add: tie_start_def tie_stable_def capped_fields capped_updates)
qed

lemma tie_start_above: "stdev_pct tie_start > 1 / 10"
  using tie_pct_bounds(1) by (simp add: tie_start_def capped_fields)

text \<open>
  The UA values 1200, 800 and 400 have mean 800: the first and the last period are
  equally far from it, and the first is taken out.
\<close>

theorem C5_outlier_selection_witness:
  "bills tie_start \<noteq> [] \<and>
   exclude_outlier (1 / 10) tie_start = Inr (Break tie_stable) \<and>
   (\<exists>i<length (bills tie_start).
      argmax (map (\<lambda>bill. \<bar>ua bill - avg_ua tie_start\<bar>) (bills tie_start)) = Inr i \<and>
      pop (bills tie_start) i
        = Inr (bills tie_start ! i, take i (bills tie_start) @ drop (Suc i) (bills tie_start)) \<and>
      \<bar>ua (bills tie_start ! 2) - avg_ua tie_start\<bar> \<le> \<bar>ua (bills tie_start ! i) - avg_ua tie_start\<bar> \<and>
      bills tie_stable = (take i (bills tie_start) @ drop (Suc i) (bills tie_start)) @ [bills tie_start ! i])"
proof -
  have ne: "bills tie_start \<noteq> []" by (simp add: tie_start_def capped_fields)
  have three: "length (bills tie_start) = 3" by (simp add: tie_start_def capped_fields)
  from C5_outlier_selection[OF ne, of "1 / 10"] obtain i where
    "i < length (bills tie_start)"
    "argmax (map (\<lambda>bill. \<bar>ua bill - avg_ua tie_start\<bar>) (bills tie_start)) = Inr i"
    "pop (bills tie_start) i
        = Inr (bills tie_start ! i, take i (bills tie_start) @ drop (Suc i) (bills tie_start))"
    "\<forall>j<length (bills tie_start).
        \<bar>ua (bills tie_start ! j) - avg_ua tie_start\<bar> \<le> \<bar>ua (bills tie_start ! i) - avg_ua tie_start\<bar>"
    "\<forall>r. exclude_outlier (1 / 10) tie_start = Inr r \<longrightarrow>
              (case r of
                 Break h' \<Rightarrow> bills h' = (take i (bills tie_start) @ drop (Suc i) (bills tie_start))
                                @ [bills tie_start ! i]
               | Continue h' \<Rightarrow> bills h' = take i (bills tie_start) @ drop (Suc i) (bills tie_start))"
    by blast
  with tie_exclude_first three ne show ?thesis by force
qed

text \<open>
  Without the first period \<open>stdev_pct\<close> is 1/3, less than 1/10 below its value with
  all three, so the exclusion is rejected and the loop returns.
\<close>

theorem C6_rejected_exclusion_witness:
  "stdev_pct tie_start > 1 / 10 \<and>
   argmax (map (\<lambda>bill. \<bar>ua bill - avg_ua tie_start\<bar>) (bills tie_start)) = Inr 0 \<and>
   ua_stats (map ua (take 0 (bills tie_start) @ drop (Suc 0) (bills tie_start))) = Inr (600, 1 / 3) \<and>
   stdev_pct tie_start - 1 / 3 < 1 / 10 \<and>
   outlier_loop (1 / 10) (1 / 10) (1 / 2) tie_start = Inr tie_stable \<and>
   mset (bills tie_stable) = mset (bills tie_start) \<and>
   balance_point tie_stable = balance_point tie_start \<and> avg_ua tie_stable = avg_ua tie_start \<and>
   stdev_pct tie_stable = stdev_pct tie_start \<and> uas tie_stable = uas tie_start"
proof -
  have a: "argmax (map (\<lambda>bill. \<bar>ua bill - avg_ua tie_start\<bar>) (bills tie_start)) = Inr 0"
    unfolding tie_start_def by (rule tie_argmax_first)
  have s: "ua_stats (map ua (take 0 (bills tie_start) @ drop (Suc 0) (bills tie_start))) = Inr (600, 1 / 3)"
    unfolding tie_start_def by (rule tie_stats_rest_first)
  have d: "stdev_pct tie_start - 1 / 3 < 1 / 10"
    using tie_pct_bounds(2) by (simp add: tie_start_def capped_fields)
  have e: "tie_start\<lparr>bills := (take 0 (bills tie_start) @ drop (Suc 0) (bills tie_start)) @ [bills tie_start ! 0]\<rparr>
      = tie_stable"
    by (simp add: tie_start_def tie_stable_def capped_fields capped_updates)
  from C6_rejected_exclusion[OF tie_start_above a s d, of "1 / 2", unfolded e]
  have "outlier_loop (1 / 10) (1 / 10) (1 / 2) tie_start = Inr tie_stable \<and>
   mset (bills tie_stable) = mset (bills tie_start) \<and>
   balance_point tie_stable = balance_point tie_start \<and> avg_ua tie_stable = avg_ua tie_start \<and>
   stdev_pct tie_stable = stdev_pct tie_start \<and> uas tie_stable = uas tie_start"
    by auto
  with tie_start_above a s d show ?thesis by simp
qed

lemma tie_start_distinct: "distinct (map oid (bills tie_start))"
  by (simp add: tie_start_def capped_fields gas_bill_def)

text \<open>
  The rejected period was the first of three, and is the last afterwards.
\<close>

theorem C10_restore_appends_witness:
  "exclude_outlier (1 / 10) tie_start = Inr (Break tie_stable) \<and>
   distinct (map oid (bills tie_start)) \<and>
   mset (bills tie_stable) = mset (bills tie_start) \<and>
   map oid (bills tie_start) = [0, 1, 2] \<and>
   map oid (bills tie_stable) = [1, 2, 0] \<and>
   bills tie_stable \<noteq> bills tie_start"
proof -
  have a: "argmax (map (\<lambda>bill. \<bar>ua bill - avg_ua tie_start\<bar>) (bills tie_start)) = Inr 0"
    unfolding tie_start_def by (rule tie_argmax_first)
  have three: "length (bills tie_start) = 3" by (simp add: tie_start_def capped_fields)
  from C10_restore_appends[OF tie_exclude_first] a tie_start_distinct three
  have "mset (bills tie_stable) = mset (bills tie_start)" and "bills tie_stable \<noteq> bills tie_start"
    by auto
  moreover have "map oid (bills tie_start) = [0, 1, 2]" "map oid (bills tie_stable) = [1, 2, 0]"
    by (simp_all add: tie_start_def tie_stable_def capped_fields gas_bill_def)
  ultimately show ?thesis using tie_exclude_first tie_start_distinct by simp
qed

lemma gas_bill_in_sync: "t < bp \<Longrightarrow> bill_in_sync bp (gas_bill i t u bp)"
  by (simp add: bill_in_sync_def gas_bill_def period_hdd_def hdd_def)





section \<open>Running the calculation again\<close>








































subsection \<open>A home with one farthest outlier\<close>










subsection \<open>A home whose second run starts with a longer step\<close>

text \<open>
  A bill of several days in a home heated with gas at efficiency 0.96. The second bill of
  the example has four days at 61 degrees, which count only above that balance point.
\<close>

definition gas_period :: "nat \<Rightarrow> real list \<Rightarrow> real \<Rightarrow> real \<Rightarrow> BillingPeriod" where
  "gas_period i ts u bp =
     \<lparr> oid = i, avg_temps = ts, usage = u, days = length ts,
       avg_heating_usage = u / real (length ts), total_hdd = period_hdd ts bp,
       partial_ua = 4000 * u, ua = 4000 * u / period_hdd ts bp \<rparr>"

definition kink_bills :: "real \<Rightarrow> BillingPeriod list" where
  "kink_bills bp = [gas_bill 0 50 23 bp, gas_period 1 [40, 61, 61, 61, 61] 47 bp]"

definition kink_home :: "real \<Rightarrow> BillingPeriod list \<Rightarrow> real list \<Rightarrow> real \<Rightarrow> real \<Rightarrow> Home" where
  "kink_home bp bs us a p = gas_home bp (123 / 2) bs us a p"

definition kink_pct :: real where
  "kink_pct = sqrt (4880000 / 3) / 10200"

lemma kink_pct_bounds: "1 / 10 < kink_pct"
proof -
  have "1020 < sqrt (4880000 / 3)" by (rule real_less_rsqrt) simp
  then show ?thesis by (simp add: kink_pct_def)
qed

lemma kink_fields:
  "bills (kink_home bp bs us a p) = bs"
  "avg_ua (kink_home bp bs us a p) = a"
  "stdev_pct (kink_home bp bs us a p) = p"
  "uas (kink_home bp bs us a p) = us"
  "balance_point (kink_home bp bs us a p) = bp"
  "thermostat_set_point (kink_home bp bs us a p) = 123 / 2"
  by (simp_all add: kink_home_def gas_home_fields)

lemma kink_updates:
  "(kink_home bp bs us a p)\<lparr>uas := us', avg_ua := a', stdev_pct := p'\<rparr> = kink_home bp bs us' a' p'"
  "(kink_home bp bs us a p)\<lparr>bills := bs', uas := us', avg_ua := a', stdev_pct := p'\<rparr>
     = kink_home bp bs' us' a' p'"
  "(kink_home bp bs us a p)\<lparr>balance_point := bp', avg_ua := a', stdev_pct := p', bills := bs'\<rparr>
     = kink_home bp' bs' us a' p'"
  by (simp_all add: kink_home_def gas_home_updates)

lemma kink_stats: "ua_stats [9200, 9400, 12000] = Inr (10200, kink_pct)"
  by (simp add: ua_stats_def mean_def pstdev_def py_div_def kink_pct_def)

lemma kink_uas_60:
  "map ua (kink_bills 60 @ [gas_bill 2 50 30 60]) = [9200, 9400, 12000]"
  by (simp add: kink_bills_def gas_bill_def gas_period_def period_hdd_def hdd_def)

text \<open>The trials of the two bills that are left, at the balance points the runs try.\<close>

lemma kink_trial:
  "refine_trial (kink_home bp (kink_bills bp) us a p) (121 / 2) =
     Inr ([21 / 2, 41 / 2], [184000 / 21, 376000 / 41], 7720000 / 861, 22 / 965)"
  "refine_trial (kink_home bp (kink_bills bp) us a p) (119 / 2) =
     Inr ([19 / 2, 39 / 2], [184000 / 19, 376000 / 39], 7160000 / 741, 2 / 895)"
  "refine_trial (kink_home bp (kink_bills bp) us a p) 59 =
     Inr ([9, 19], [92000 / 9, 188000 / 19], 1720000 / 171, 7 / 430)"
  "refine_trial (kink_home bp (kink_bills bp) us a p) (123 / 2) =
     Inr ([23 / 2, 47 / 2], [8000, 8000], 8000, 0)"
  by (simp_all add: refine_trial_def kink_fields kink_bills_def gas_bill_def gas_period_def
      period_hdd_def hdd_def py_div_def ua_stats_def mean_def pstdev_pair)

lemma kink_store:
  "store_hdd_ua (kink_bills 60) [19 / 2, 39 / 2] [184000 / 19, 376000 / 39] = kink_bills (119 / 2)"
  "store_hdd_ua (kink_bills (119 / 2)) [23 / 2, 47 / 2] [8000, 8000] = kink_bills (123 / 2)"
  by (simp_all add: store_hdd_ua_def kink_bills_def gas_bill_def gas_period_def
      period_hdd_def hdd_def)

definition kink_kept :: Home where
  "kink_kept = kink_home 60 (kink_bills 60) [9200, 9400] 9300 (1 / 93)"

definition kink_first :: Home where
  "kink_first = kink_home (119 / 2) (kink_bills (119 / 2)) [9200, 9400] (7160000 / 741) (2 / 895)"

definition kink_second :: Home where
  "kink_second = kink_home (123 / 2) (kink_bills (123 / 2)) [184000 / 19, 376000 / 39] 8000 0"

lemma kink_search_down:
  "refine_balance_point (1 / 2) kink_kept = Inr kink_first"
proof -
  have 1: "refine_step (1 / 2) kink_kept [1, - 1] = Inr (Some (kink_kept, [- 1]))"
    unfolding kink_kept_def
    by (rule refine_step_drop[where hs = "[21 / 2, 41 / 2]" and us = "[184000 / 21, 376000 / 41]"
          and a = "7720000 / 861" and p = "22 / 965"])
       (simp_all add: kink_fields kink_trial)
  have "refine_step (1 / 2) kink_kept [- 1] =
      Inr (Some (kink_kept\<lparr>balance_point := balance_point kink_kept + real_of_int (- 1) * (1 / 2),
                    avg_ua := 7160000 / 741, stdev_pct := 2 / 895,
                    bills := store_hdd_ua (bills kink_kept) [19 / 2, 39 / 2] [184000 / 19, 376000 / 39]\<rparr>,
                 if length ([] :: int list) = 1 then [- 1] else [- 1]))"
    unfolding kink_kept_def
    by (rule refine_step_commit) (simp_all add: kink_fields kink_trial)
  also have "kink_kept\<lparr>balance_point := balance_point kink_kept + real_of_int (- 1) * (1 / 2),
                    avg_ua := 7160000 / 741, stdev_pct := 2 / 895,
                    bills := store_hdd_ua (bills kink_kept) [19 / 2, 39 / 2] [184000 / 19, 376000 / 39]\<rparr>
      = kink_first"
    by (simp add: kink_kept_def kink_first_def kink_fields kink_updates kink_store)
  finally have 2: "refine_step (1 / 2) kink_kept [- 1] = Inr (Some (kink_first, [- 1]))" by simp
  have 3: "refine_step (1 / 2) kink_first [- 1] = Inr (Some (kink_first, []))"
    unfolding kink_first_def
    by (rule refine_step_drop[where hs = "[9, 19]" and us = "[92000 / 9, 188000 / 19]"
          and a = "1720000 / 171" and p = "7 / 430"])
       (simp_all add: kink_fields kink_trial)
  show ?thesis
    unfolding refine_balance_point_def
    by (simp add: refine_loop_Cons refine_loop_Nil 1 2 3)
qed

lemma kink_search_up:
  "refine_balance_point 2 (kink_home (119 / 2) (kink_bills (119 / 2)) [184000 / 19, 376000 / 39]
       (7160000 / 741) (2 / 895)) = Inr kink_second"
proof -
  let ?h = "kink_home (119 / 2) (kink_bills (119 / 2)) [184000 / 19, 376000 / 39]
       (7160000 / 741) (2 / 895)"
  have "refine_step 2 ?h [1, - 1] =
      Inr (Some (?h\<lparr>balance_point := balance_point ?h + real_of_int 1 * 2,
                    avg_ua := 8000, stdev_pct := 0,
                    bills := store_hdd_ua (bills ?h) [23 / 2, 47 / 2] [8000, 8000]\<rparr>,
                 if length [- 1 :: int] = 1 then [1] else [1, - 1]))"
    by (rule refine_step_commit) (simp_all add: kink_fields kink_trial)
  also have "?h\<lparr>balance_point := balance_point ?h + real_of_int 1 * 2,
                    avg_ua := 8000, stdev_pct := 0,
                    bills := store_hdd_ua (bills ?h) [23 / 2, 47 / 2] [8000, 8000]\<rparr>
      = kink_second"
    by (simp add: kink_second_def kink_fields kink_updates kink_store)
  finally have 1: "refine_step 2 ?h [1, - 1] = Inr (Some (kink_second, [1]))" by simp
  have 2: "refine_step 2 kink_second [1] = Inr None"
    by (rule refine_step_break) (simp add: kink_second_def kink_fields)
  show ?thesis
    unfolding refine_balance_point_def
    by (simp add: refine_loop_Cons 1 2)
qed

definition kink_built :: Home where
  "kink_built = kink_home 60 (kink_bills 60 @ [gas_bill 2 50 30 60]) [] 0 0"

definition kink_start :: Home where
  "kink_start = kink_home 60 (kink_bills 60 @ [gas_bill 2 50 30 60]) [9200, 9400, 12000] 10200 kink_pct"

lemma kink_init:
  "initialize_billing_periods [[50], [40, 61, 61, 61, 61], [50]] [23, 47, 30] 0
       (Home_init GAS (96 / 100) 60 (123 / 2)) = Inr kink_built"
  by (simp add: initialize_billing_periods_def Home_init_def BillingPeriod_init_def py_div_def
      period_hdd_def hdd_def calculate_partial_ua_def gas_home_def gas_bill_def gas_period_def
      Let_def kink_home_def kink_bills_def kink_built_def)

lemma kink_exclude: "exclude_outlier (1 / 100) kink_start = Inr (Continue kink_kept)"
proof -
  let ?s = "kink_home 60 (kink_bills 60 @ [gas_bill 2 50 30 60]) [9200, 9400, 12000] 10200 kink_pct"
  have am: "argmax (map (\<lambda>bill. \<bar>ua bill - avg_ua ?s\<bar>) (bills ?s)) = Inr 2"
    unfolding kink_fields
    by (simp add: kink_bills_def gas_bill_def gas_period_def period_hdd_def hdd_def argmax_def)
  have rest: "take 2 (bills ?s) @ drop (Suc 2) (bills ?s) = kink_bills 60"
    by (simp add: kink_fields kink_bills_def)
  have st: "ua_stats (map ua (take 2 (bills ?s) @ drop (Suc 2) (bills ?s))) = Inr (9300, 1 / 93)"
    unfolding rest
    by (simp add: kink_bills_def gas_bill_def gas_period_def period_hdd_def hdd_def
        ua_stats_def mean_def pstdev_pair py_div_def)
  have k: "?s\<lparr>bills := take 2 (bills ?s) @ drop (Suc 2) (bills ?s),
            uas := map ua (take 2 (bills ?s) @ drop (Suc 2) (bills ?s)),
            avg_ua := 9300, stdev_pct := 1 / 93\<rparr> = kink_kept"
    unfolding rest
    by (simp add: kink_kept_def kink_updates)
       (simp add: kink_bills_def gas_bill_def gas_period_def period_hdd_def hdd_def)
  have "\<not> stdev_pct ?s - 1 / 93 < 1 / 100" using kink_pct_bounds by (simp add: kink_fields)
  with exclude_outlier_eval[OF am st, of "1 / 100"]
  show ?thesis unfolding k kink_start_def by simp
qed

lemma kink_first_run:
  "calculate_balance_point_and_ua 2 (1 / 10) (1 / 100) (1 / 2) kink_built = Inr kink_first"
proof -
  have u: "map ua (bills kink_built) = [9200, 9400, 12000]"
    unfolding kink_built_def kink_fields by (rule kink_uas_60)
  have w: "kink_built\<lparr>uas := [9200, 9400, 12000], avg_ua := 10200, stdev_pct := kink_pct\<rparr> = kink_start"
    by (simp add: kink_built_def kink_start_def kink_updates)
  have r: "refine_balance_point 2 kink_start = Inr kink_start"
    unfolding kink_start_def kink_home_def by (rule gas_refine_break) simp
  have a1: "stdev_pct kink_start > 1 / 10"
    using kink_pct_bounds by (simp add: kink_start_def kink_fields)
  have "outlier_loop (1 / 10) (1 / 100) (1 / 2) kink_start
      = outlier_loop (1 / 10) (1 / 100) (1 / 2) kink_first"
    by (rule outlier_loop_Continue[OF a1 kink_exclude kink_search_down])
  also have "\<dots> = Inr kink_first"
    by (rule outlier_loop_done) (simp add: kink_first_def kink_fields)
  finally have l: "outlier_loop (1 / 10) (1 / 100) (1 / 2) kink_start = Inr kink_first" .
  show ?thesis
    by (simp only: calculate_balance_point_and_ua_def Let_def u kink_stats
        sum.case prod.case w r l)
qed

lemma kink_second_run:
  "calculate_balance_point_and_ua 2 (1 / 10) (1 / 100) (1 / 2) kink_first = Inr kink_second"
proof -
  have u: "map ua (bills kink_first) = [184000 / 19, 376000 / 39]"
    by (simp add: kink_first_def kink_fields kink_bills_def gas_bill_def gas_period_def
        period_hdd_def hdd_def)
  have st: "ua_stats [184000 / 19, 376000 / 39] = Inr (7160000 / 741, 2 / 895)"
    by (simp add: ua_stats_def mean_def pstdev_pair py_div_def)
  have w: "kink_first\<lparr>uas := [184000 / 19, 376000 / 39], avg_ua := 7160000 / 741,
             stdev_pct := 2 / 895\<rparr>
      = kink_home (119 / 2) (kink_bills (119 / 2)) [184000 / 19, 376000 / 39]
          (7160000 / 741) (2 / 895)"
    by (simp add: kink_first_def kink_updates)
  have l: "outlier_loop (1 / 10) (1 / 100) (1 / 2) kink_second = Inr kink_second"
    by (rule outlier_loop_done) (simp add: kink_second_def kink_fields)
  show ?thesis
    by (simp only: calculate_balance_point_and_ua_def Let_def u st
        sum.case prod.case w kink_search_up l)
qed

text \<open>
  A run that keeps an exclusion ends with the search at sensitivity 1/2, here at balance
  point 59.5 and within the maximum. The second run starts with sensitivity 2 and finds
  61.5, where the two periods agree: it moves the balance point and changes \<open>avg_ua\<close> and
  \<open>stdev_pct\<close>. So a second run can differ also after a run that ended within the
  maximum, when the two sensitivities differ and a period was excluded.
\<close>

lemma second_run_moves_balance_point:
  "initialize_billing_periods [[50], [40, 61, 61, 61, 61], [50]] [23, 47, 30] 0
       (Home_init GAS (96 / 100) 60 (123 / 2)) = Inr kink_built \<and>
   calculate_balance_point_and_ua 2 (1 / 10) (1 / 100) (1 / 2) kink_built = Inr kink_first \<and>
   calculate_balance_point_and_ua 2 (1 / 10) (1 / 100) (1 / 2) kink_first = Inr kink_second \<and>
   stdev_pct kink_first \<le> 1 / 10 \<and>
   balance_point kink_first = 119 / 2 \<and> balance_point kink_second = 123 / 2 \<and>
   avg_ua kink_first = 7160000 / 741 \<and> avg_ua kink_second = 8000 \<and>
   stdev_pct kink_first = 2 / 895 \<and> stdev_pct kink_second = 0"
proof (intro conjI)
  show "initialize_billing_periods [[50], [40, 61, 61, 61, 61], [50]] [23, 47, 30] 0
       (Home_init GAS (96 / 100) 60 (123 / 2)) = Inr kink_built"
    by (rule kink_init)
  show "calculate_balance_point_and_ua 2 (1 / 10) (1 / 100) (1 / 2) kink_built = Inr kink_first"
    by (rule kink_first_run)
  show "calculate_balance_point_and_ua 2 (1 / 10) (1 / 100) (1 / 2) kink_first = Inr kink_second"
    by (rule kink_second_run)
qed (simp_all add: kink_first_def kink_second_def kink_fields)

subsection \<open>The billing periods of the example homes\<close>

lemma kink_reaches:
  "outlier_reaches (1 / 10) (1 / 100) (1 / 2) kink_start kink_first"
proof -
  have "stdev_pct kink_start > 1 / 10"
    using kink_pct_bounds by (simp add: kink_start_def kink_fields)
  from outlier_reaches.pass[OF outlier_reaches.start this kink_exclude kink_search_down]
  show ?thesis .
qed

lemma kink_first_hdd:
  "balance_point kink_first = 119 / 2" "map oid (bills kink_first) = [0, 1]"
  "map total_hdd (bills kink_first) = [19 / 2, 39 / 2]"
  "map ua (bills kink_first) = [184000 / 19, 376000 / 39]"
  by (simp_all add: kink_first_def kink_fields kink_bills_def gas_bill_def gas_period_def
      period_hdd_def hdd_def)

text \<open>
  The example homes are in sync where they are built. The trial the search of the first
  home commits at 62 rewrites both of its bills, and so does the one at 64. The
  rejected exclusion of the home with two equally distant outliers leaves its three
  bills in sync. The home with three bills of the last example loses its third bill,
  and the search that follows moves the balance point from 60 to 59.5: the two bills
  that are left have the degree days 9.5 and 19.5 of that balance point, in the state
  the loop tests next and in the home \<^verbatim>\<open>calculate_balance_point_and_ua\<close> returns.
\<close>

theorem C1_synchronization_witness:
  "initialize_billing_periods [[50], [40]] [4, 7] 0 (Home_init GAS (96 / 100) 60 68)
     = Inr (search_home 60 [] 0 0) \<and>
   in_sync (search_home 60 [] 0 0) \<and>
   refine_step 2 (search_home 60 [1600, 1400] 1500 (1 / 15)) [1, - 1]
     = Inr (Some (search_home 62 [1600, 1400] (43000 / 33) (1 / 43), [1])) \<and>
   search_home 62 [1600, 1400] (43000 / 33) (1 / 43) \<noteq> search_home 60 [1600, 1400] 1500 (1 / 15) \<and>
   in_sync (search_home 62 [1600, 1400] (43000 / 33) (1 / 43)) \<and>
   balance_point (search_home 62 [1600, 1400] (43000 / 33) (1 / 43)) = 62 \<and>
   bills (search_home 62 [1600, 1400] (43000 / 33) (1 / 43))
     = map (resync 62) (bills (search_home 60 [1600, 1400] 1500 (1 / 15))) \<and>
   ua_stats (map ua (bills (search_home 62 [1600, 1400] (43000 / 33) (1 / 43))))
     = Inr (43000 / 33, 1 / 43) \<and>
   refine_reaches 2 (search_home 62 [1600, 1400] (43000 / 33) (1 / 43), [1])
     (search_home 64 [1600, 1400] (24250 / 21) (1 / 97), [1]) \<and>
   in_sync (search_home 64 [1600, 1400] (24250 / 21) (1 / 97)) \<and>
   bills (search_home 64 [1600, 1400] (24250 / 21) (1 / 97))
     = map (resync 64) (bills (search_home 62 [1600, 1400] (43000 / 33) (1 / 43))) \<and>
   in_sync tie_start \<and> exclude_outlier (1 / 10) tie_start = Inr (Break tie_stable) \<and>
   in_sync tie_stable \<and> balance_point tie_stable = balance_point tie_start \<and>
   mset (bills tie_stable) \<subseteq># mset (bills tie_start) \<and>
   initialize_billing_periods [[50], [40, 61, 61, 61, 61], [50]] [23, 47, 30] 0
       (Home_init GAS (96 / 100) 60 (123 / 2)) = Inr kink_built \<and>
   in_sync kink_built \<and> in_sync kink_start \<and>
   outlier_reaches (1 / 10) (1 / 100) (1 / 2) kink_start kink_first \<and>
   in_sync kink_first \<and>
   mset (bills kink_first) \<subseteq># mset (map (resync (119 / 2)) (bills kink_start)) \<and>
   calculate_balance_point_and_ua 2 (1 / 10) (1 / 100) (1 / 2) kink_built = Inr kink_first \<and>
   mset (bills kink_first) \<subseteq># mset (map (resync (119 / 2)) (bills kink_built)) \<and>
   balance_point kink_first = 119 / 2 \<and> map oid (bills kink_first) = [0, 1] \<and>
   map total_hdd (bills kink_first) = [19 / 2, 39 / 2]"
proof -
  let ?h60 = "search_home 60 [1600, 1400] 1500 (1 / 15)"
  let ?h62 = "search_home 62 [1600, 1400] (43000 / 33) (1 / 43)"
  let ?h64 = "search_home 64 [1600, 1400] (24250 / 21) (1 / 97)"
  have b62: "balance_point ?h62 = 62" and b64: "balance_point ?h64 = 64"
    and a62: "avg_ua ?h62 = 43000 / 33" and p62: "stdev_pct ?h62 = 1 / 43"
    by (simp_all add: search_home_def gas_home_fields)
  have s0: "in_sync (search_home 60 [] 0 0)"
    using C1_synchronization[where temps = "[[50], [40]]" and usages = "[4, 7]" and nh = 0
        and h = "Home_init GAS (96 / 100) 60 68" and h' = "search_home 60 [] 0 0"]
      search_home_init by blast
  have "in_sync ?h62 \<and> bills ?h62 = map (resync (balance_point ?h62)) (bills ?h60) \<and>
        ua_stats (map ua (bills ?h62)) = Inr (avg_ua ?h62, stdev_pct ?h62)"
    using C1_synchronization[where sens = 2 and h = ?h60 and dirs = "[1, - 1]" and h' = ?h62
        and dirs' = "[1]"] search_pass_62 search_differ by blast
  then have s62: "in_sync ?h62" and r62: "bills ?h62 = map (resync 62) (bills ?h60)"
    and u62: "ua_stats (map ua (bills ?h62)) = Inr (43000 / 33, 1 / 43)"
    unfolding b62 a62 p62 by blast+
  have "in_sync ?h64 \<and> bills ?h64 = map (resync (balance_point ?h64)) (bills ?h62)"
    using C1_synchronization[where sens = 2 and h = ?h62 and dirs = "[1]" and h' = ?h64
        and dirs' = "[1]"] s62 search_reaches_64 by blast
  then have s64: "in_sync ?h64" and r64: "bills ?h64 = map (resync 64) (bills ?h62)"
    unfolding b64 by blast+
  have t0: "in_sync tie_start"
    by (simp add: in_sync_def tie_start_def capped_fields gas_bill_in_sync)
  have t1: "in_sync tie_stable" and t2: "balance_point tie_stable = balance_point tie_start"
    and t3: "mset (bills tie_stable) \<subseteq># mset (bills tie_start)"
    using C1_synchronization[where d = "1 / 10" and h = tie_start and h' = tie_stable]
      t0 tie_exclude_first by blast+
  have k0: "in_sync kink_built"
    using C1_synchronization[where temps = "[[50], [40, 61, 61, 61, 61], [50]]"
        and usages = "[23, 47, 30]" and nh = 0
        and h = "Home_init GAS (96 / 100) 60 (123 / 2)" and h' = kink_built]
      kink_init by blast
  then have k1: "in_sync kink_start"
    by (simp add: in_sync_def kink_built_def kink_start_def kink_fields)
  have "in_sync kink_first \<and>
        mset (bills kink_first) \<subseteq># mset (map (resync (balance_point kink_first)) (bills kink_start))"
    using C1_synchronization[where m = "1 / 10" and d = "1 / 100" and sens = "1 / 2"
        and h = kink_start and h' = kink_first] k1 kink_reaches by blast
  then have k2: "in_sync kink_first"
    and k3: "mset (bills kink_first) \<subseteq># mset (map (resync (119 / 2)) (bills kink_start))"
    unfolding kink_first_hdd(1) by blast+
  have "mset (bills kink_first) \<subseteq># mset (map (resync (balance_point kink_first)) (bills kink_built))"
    using C1_synchronization[where ?sens0.0 = 2 and m = "1 / 10" and d = "1 / 100" and sens = "1 / 2"
        and h = kink_built and h' = kink_first] k0 kink_first_run by blast
  then have k4: "mset (bills kink_first) \<subseteq># mset (map (resync (119 / 2)) (bills kink_built))"
    unfolding kink_first_hdd(1) .
  from search_home_init s0 search_pass_62 search_differ s62 b62 r62 u62 search_reaches_64 s64 r64
    t0 tie_exclude_first t1 t2 t3 kink_init k0 k1 kink_reaches k2 k3 kink_first_run k4
    kink_first_hdd(1,2,3)
  show ?thesis by blast
qed

section \<open>Construction of a billing period\<close>



end
